theory Spec2Isabelle
  imports Main
begin

section \<open>Python strings\<close>

text \<open>
  The program is \<^verbatim>\<open>converter_agent.py\<close>. Its texts are Python \<^verbatim>\<open>str\<close> values. A character
  of this theory is a code point below 256 (Latin-1), and every classification below is the
  one Python 3 gives to that code point; text with code points from 256 on is outside the
  embedding.
\<close>

definition nl :: char where "nl = CHR 0x0A"
definition cr :: char where "cr = CHR 0x0D"
definition dq :: char where "dq = CHR 0x22"
definition sq :: char where "sq = CHR 0x27"
definition bsl :: char where "bsl = CHR 0x5C"

text \<open>\<^verbatim>\<open>str.isspace\<close>, which is also the class \<^verbatim>\<open>\s\<close> of \<^verbatim>\<open>re\<close>.\<close>

definition is_space :: "char \<Rightarrow> bool" where
  "is_space c = (let n = (of_char c :: nat) in
     (9 \<le> n \<and> n \<le> 13) \<or> (28 \<le> n \<and> n \<le> 32) \<or> n = 133 \<or> n = 160)"

text \<open>The line boundaries of \<^verbatim>\<open>str.splitlines\<close>.\<close>

definition is_linebreak :: "char \<Rightarrow> bool" where
  "is_linebreak c = (let n = (of_char c :: nat) in
     (10 \<le> n \<and> n \<le> 13) \<or> (28 \<le> n \<and> n \<le> 30) \<or> n = 133)"

text \<open>The class \<^verbatim>\<open>\w\<close> of \<^verbatim>\<open>re\<close> on \<^verbatim>\<open>str\<close> patterns: alphanumeric or underscore.\<close>

definition is_word :: "char \<Rightarrow> bool" where
  "is_word c = (let n = (of_char c :: nat) in
     (48 \<le> n \<and> n \<le> 57) \<or> (65 \<le> n \<and> n \<le> 90) \<or> n = 95 \<or> (97 \<le> n \<and> n \<le> 122) \<or>
     n = 170 \<or> n = 178 \<or> n = 179 \<or> n = 181 \<or> n = 185 \<or> n = 186 \<or>
     (188 \<le> n \<and> n \<le> 190) \<or> (192 \<le> n \<and> n \<le> 214) \<or> (216 \<le> n \<and> n \<le> 246) \<or> 248 \<le> n)"

definition lower_char :: "char \<Rightarrow> char" where
  "lower_char c = (let n = (of_char c :: nat) in
     if (65 \<le> n \<and> n \<le> 90) \<or> (192 \<le> n \<and> n \<le> 222 \<and> n \<noteq> 215) then char_of (n + 32) else c)"

definition lower :: "string \<Rightarrow> string" where
  "lower s = map lower_char s"

definition lstrip :: "string \<Rightarrow> string" where
  "lstrip s = dropWhile is_space s"

definition rstrip :: "string \<Rightarrow> string" where
  "rstrip s = rev (dropWhile is_space (rev s))"

definition strip :: "string \<Rightarrow> string" where
  "strip s = rstrip (lstrip s)"

text \<open>\<^verbatim>\<open>s.startswith(p)\<close> and \<^verbatim>\<open>p in s\<close>.\<close>

definition startswith :: "string \<Rightarrow> string \<Rightarrow> bool" where
  "startswith s p = (take (length p) s = p)"

fun str_contains :: "string \<Rightarrow> string \<Rightarrow> bool" where
  "str_contains [] p = (p = [])"
| "str_contains (c # s) p = (if startswith (c # s) p then True else str_contains s p)"

text \<open>\<^verbatim>\<open>str.find\<close> for a text that is known to occur; \<^verbatim>\<open>None\<close> stands for \<^verbatim>\<open>-1\<close>.\<close>

fun str_find :: "string \<Rightarrow> string \<Rightarrow> nat option" where
  "str_find [] p = (if p = [] then Some 0 else None)"
| "str_find (c # s) p =
     (if startswith (c # s) p then Some 0 else map_option Suc (str_find s p))"

text \<open>
  \<^verbatim>\<open>str.splitlines()\<close>: a line ends at a line boundary, \<^verbatim>\<open>\r\n\<close> is one boundary, and no
  empty line follows a final boundary.
\<close>

function splitlines :: "string \<Rightarrow> string list" where
  "splitlines s =
     (if s = [] then []
      else case dropWhile (\<lambda>c. \<not> is_linebreak c) s of
             [] \<Rightarrow> [s]
           | c # r \<Rightarrow> takeWhile (\<lambda>c. \<not> is_linebreak c) s #
                      splitlines (if c = cr \<and> take 1 r = [nl] then tl r else r))"
  by pat_completeness auto
termination
proof (relation "measure length")
  show "wf (measure length)" by simp
next
  fix s :: string and c r
  assume d: "dropWhile (\<lambda>c. \<not> is_linebreak c) s = c # r"
  have "length (c # r) \<le> length s"
    using length_dropWhile_le [of "\<lambda>c. \<not> is_linebreak c" s] d by simp
  then have "length r < length s" by simp
  moreover have "length (tl r) \<le> length r" by simp
  ultimately show "(if c = cr \<and> take 1 r = [nl] then tl r else r, s) \<in> measure length"
    by auto
qed

declare splitlines.simps [simp del]

text \<open>\<^verbatim>\<open>sep.join(parts)\<close>.\<close>

fun join :: "string \<Rightarrow> string list \<Rightarrow> string" where
  "join sep [] = []"
| "join sep [l] = l"
| "join sep (l # m # ls) = l @ sep @ join sep (m # ls)"

section \<open>Regular expressions of the \<^verbatim>\<open>re\<close> module\<close>

text \<open>
  A backtracking matcher in the order of \<^verbatim>\<open>re\<close>: \<open>rmatch\<close> lists the states a pattern
  can reach from a state, the preferred one first, so that the head of the list is the
  match Python reports. A state is the character before the position (\<open>None\<close> at the
  start of the text), the text from the position on, and the groups captured so far.
\<close>

record flags =
  ignorecase :: bool
  multiline :: bool
  dotall :: bool

definition no_flags :: flags where
  "no_flags = \<lparr>ignorecase = False, multiline = False, dotall = False\<rparr>"

definition IGNORECASE :: flags where
  "IGNORECASE = \<lparr>ignorecase = True, multiline = False, dotall = False\<rparr>"

definition MULTILINE :: flags where
  "MULTILINE = \<lparr>ignorecase = False, multiline = True, dotall = False\<rparr>"

definition DOTALL :: flags where
  "DOTALL = \<lparr>ignorecase = False, multiline = False, dotall = True\<rparr>"

datatype cset =
    Word              \<comment> \<open>\<^verbatim>\<open>\w\<close>\<close>
  | Space             \<comment> \<open>\<^verbatim>\<open>\s\<close>\<close>
  | Dot               \<comment> \<open>\<^verbatim>\<open>.\<close>\<close>
  | OneOf string      \<comment> \<open>\<^verbatim>\<open>[...]\<close>\<close>
  | NoneOf string     \<comment> \<open>\<^verbatim>\<open>[^...]\<close>\<close>

datatype regex =
    Eps
  | Lit string
  | Cs cset
  | Seq regex regex
  | Alt regex regex
  | Star regex        \<comment> \<open>\<^verbatim>\<open>r*\<close>\<close>
  | LazyStar regex    \<comment> \<open>\<^verbatim>\<open>r*?\<close>\<close>
  | Opt regex         \<comment> \<open>\<^verbatim>\<open>r?\<close>\<close>
  | Group nat regex   \<comment> \<open>the \<open>n\<close>-th capturing parenthesis\<close>
  | Bol               \<comment> \<open>\<^verbatim>\<open>^\<close>\<close>
  | Eol               \<comment> \<open>\<^verbatim>\<open>$\<close>\<close>
  | WordB             \<comment> \<open>\<^verbatim>\<open>\b\<close>\<close>

type_synonym caps = "(nat \<times> string) list"
type_synonym mstate = "char option \<times> string \<times> caps"

definition rest_of :: "mstate \<Rightarrow> string" where
  "rest_of st = fst (snd st)"

definition caps_of :: "mstate \<Rightarrow> caps" where
  "caps_of st = snd (snd st)"

definition ch_eq :: "flags \<Rightarrow> char \<Rightarrow> char \<Rightarrow> bool" where
  "ch_eq fl c a = (if ignorecase fl then lower_char c = lower_char a else c = a)"

fun cset_match :: "flags \<Rightarrow> cset \<Rightarrow> char \<Rightarrow> bool" where
  "cset_match fl Word c = is_word c"
| "cset_match fl Space c = is_space c"
| "cset_match fl Dot c = (if dotall fl then True else c \<noteq> nl)"
| "cset_match fl (OneOf cs) c = list_ex (ch_eq fl c) cs"
| "cset_match fl (NoneOf cs) c = (\<not> list_ex (ch_eq fl c) cs)"

fun step_char :: "(char \<Rightarrow> bool) \<Rightarrow> mstate \<Rightarrow> mstate list" where
  "step_char P (p, [], g) = []"
| "step_char P (p, c # s, g) = (if P c then [(Some c, s, g)] else [])"

fun lit_match :: "flags \<Rightarrow> string \<Rightarrow> mstate \<Rightarrow> mstate list" where
  "lit_match fl [] st = [st]"
| "lit_match fl (a # l) st = concat (map (lit_match fl l) (step_char (\<lambda>c. ch_eq fl c a) st))"

text \<open>
  Repetition. An iteration that consumes nothing ends the repetition, so the length of the
  remaining text bounds the number of iterations and serves as fuel.
\<close>

fun star_greedy :: "(mstate \<Rightarrow> mstate list) \<Rightarrow> nat \<Rightarrow> mstate \<Rightarrow> mstate list" where
  "star_greedy f 0 st = [st]"
| "star_greedy f (Suc n) st =
     concat (map (star_greedy f n)
       (filter (\<lambda>st'. length (rest_of st') < length (rest_of st)) (f st))) @ [st]"

fun star_lazy :: "(mstate \<Rightarrow> mstate list) \<Rightarrow> nat \<Rightarrow> mstate \<Rightarrow> mstate list" where
  "star_lazy f 0 st = [st]"
| "star_lazy f (Suc n) st =
     st # concat (map (star_lazy f n)
       (filter (\<lambda>st'. length (rest_of st') < length (rest_of st)) (f st)))"

definition set_group :: "nat \<Rightarrow> mstate \<Rightarrow> mstate \<Rightarrow> mstate" where
  "set_group n st st' =
     (fst st', rest_of st',
      (n, take (length (rest_of st) - length (rest_of st')) (rest_of st)) # caps_of st')"

definition at_bol :: "flags \<Rightarrow> mstate \<Rightarrow> bool" where
  "at_bol fl st = (case fst st of None \<Rightarrow> True | Some c \<Rightarrow> multiline fl \<and> c = nl)"

definition at_eol :: "flags \<Rightarrow> mstate \<Rightarrow> bool" where
  "at_eol fl st =
     (case rest_of st of [] \<Rightarrow> True | c # s \<Rightarrow> c = nl \<and> (multiline fl \<or> s = []))"

definition at_wordb :: "mstate \<Rightarrow> bool" where
  "at_wordb st =
     ((case fst st of None \<Rightarrow> False | Some c \<Rightarrow> is_word c) \<noteq>
      (case rest_of st of [] \<Rightarrow> False | c # s \<Rightarrow> is_word c))"

primrec rmatch :: "regex \<Rightarrow> flags \<Rightarrow> mstate \<Rightarrow> mstate list" where
  "rmatch Eps fl st = [st]"
| "rmatch (Lit l) fl st = lit_match fl l st"
| "rmatch (Cs cs) fl st = step_char (cset_match fl cs) st"
| "rmatch (Seq a b) fl st = concat (map (rmatch b fl) (rmatch a fl st))"
| "rmatch (Alt a b) fl st = rmatch a fl st @ rmatch b fl st"
| "rmatch (Star r) fl st = star_greedy (rmatch r fl) (length (rest_of st)) st"
| "rmatch (LazyStar r) fl st = star_lazy (rmatch r fl) (length (rest_of st)) st"
| "rmatch (Opt r) fl st = rmatch r fl st @ [st]"
| "rmatch (Group n r) fl st = map (set_group n st) (rmatch r fl st)"
| "rmatch Bol fl st = (if at_bol fl st then [st] else [])"
| "rmatch Eol fl st = (if at_eol fl st then [st] else [])"
| "rmatch WordB fl st = (if at_wordb st then [st] else [])"

text \<open>\<^verbatim>\<open>r+\<close> is \<^verbatim>\<open>rr*\<close>; the patterns below are written with these shorthands.\<close>

definition Plus :: "regex \<Rightarrow> regex" where
  "Plus r = Seq r (Star r)"

definition seqs :: "regex list \<Rightarrow> regex" where
  "seqs rs = foldr Seq rs Eps"

fun alts :: "regex list \<Rightarrow> regex" where
  "alts [] = Eps"
| "alts [r] = r"
| "alts (r # q # rs) = Alt r (alts (q # rs))"

definition ws0 :: regex where "ws0 = Star (Cs Space)"    \<comment> \<open>\<^verbatim>\<open>\s*\<close>\<close>
definition ws1 :: regex where "ws1 = Plus (Cs Space)"    \<comment> \<open>\<^verbatim>\<open>\s+\<close>\<close>
definition wd1 :: regex where "wd1 = Plus (Cs Word)"     \<comment> \<open>\<^verbatim>\<open>\w+\<close>\<close>

text \<open>
  \<^verbatim>\<open>re.search\<close>: the leftmost position with a match, and there the preferred match. The
  result is the start index and the state at the end of the match.
\<close>

fun re_find :: "regex \<Rightarrow> flags \<Rightarrow> char option \<Rightarrow> string \<Rightarrow> nat \<Rightarrow> (nat \<times> mstate) option" where
  "re_find r fl p [] i =
     (case rmatch r fl (p, [], []) of st # _ \<Rightarrow> Some (i, st) | [] \<Rightarrow> None)"
| "re_find r fl p (c # s) i =
     (case rmatch r fl (p, c # s, []) of
        st # _ \<Rightarrow> Some (i, st)
      | [] \<Rightarrow> re_find r fl (Some c) s (Suc i))"

definition re_search :: "regex \<Rightarrow> flags \<Rightarrow> string \<Rightarrow> bool" where
  "re_search r fl s = (re_find r fl None s 0 \<noteq> None)"

text \<open>
  \<^verbatim>\<open>re.sub\<close>, \<^verbatim>\<open>re.findall\<close>: the text is scanned from the left for matches that do not
  overlap; \<open>Hit m g\<close> is a match of text \<open>m\<close> with groups \<open>g\<close>, \<open>Text c\<close> a character
  outside every match. After a match of the empty text the scan copies one character
  and goes on behind it (no pattern of this program matches the empty text).
\<close>

datatype piece = Text char | Hit string caps

function re_scan :: "regex \<Rightarrow> flags \<Rightarrow> char option \<Rightarrow> string \<Rightarrow> piece list" where
  "re_scan r fl p s =
     (case rmatch r fl (p, s, []) of
        st # _ \<Rightarrow>
          (if length (rest_of st) < length s
           then Hit (take (length s - length (rest_of st)) s) (caps_of st) #
                  re_scan r fl (fst st) (rest_of st)
           else Hit [] (caps_of st) #
                  (case s of [] \<Rightarrow> [] | c # s' \<Rightarrow> Text c # re_scan r fl (Some c) s'))
      | [] \<Rightarrow> (case s of [] \<Rightarrow> [] | c # s' \<Rightarrow> Text c # re_scan r fl (Some c) s'))"
  by pat_completeness auto
termination
  by (relation "measure (\<lambda>(r, fl, p, s). length s)") auto

declare re_scan.simps [simp del]

text \<open>A replacement template: literal text and group references \<^verbatim>\<open>\1\<close>, \<^verbatim>\<open>\2\<close>.\<close>

datatype titem = T string | G nat

fun expand :: "titem list \<Rightarrow> caps \<Rightarrow> string" where
  "expand [] g = []"
| "expand (T l # t) g = l @ expand t g"
| "expand (G n # t) g = (case map_of g n of Some m \<Rightarrow> m | None \<Rightarrow> []) @ expand t g"

fun emit :: "(string \<Rightarrow> caps \<Rightarrow> string) \<Rightarrow> piece \<Rightarrow> string" where
  "emit f (Text c) = [c]"
| "emit f (Hit m g) = f m g"

definition re_sub_fun :: "regex \<Rightarrow> (string \<Rightarrow> caps \<Rightarrow> string) \<Rightarrow> string \<Rightarrow> flags \<Rightarrow> string" where
  "re_sub_fun r f s fl = concat (map (emit f) (re_scan r fl None s))"

definition re_sub :: "regex \<Rightarrow> titem list \<Rightarrow> string \<Rightarrow> string" where
  "re_sub r t s = re_sub_fun r (\<lambda>m g. expand t g) s no_flags"

fun is_hit :: "piece \<Rightarrow> bool" where
  "is_hit (Hit m g) = True"
| "is_hit (Text c) = False"

definition re_findall_count :: "regex \<Rightarrow> string \<Rightarrow> nat" where
  "re_findall_count r s = length (filter is_hit (re_scan r no_flags None s))"

section \<open>\<^verbatim>\<open>detect_code_language\<close>\<close>

text \<open>The patterns of the function, each under the Python text it is written from.\<close>

text \<open>\<^verbatim>\<open>import|def\s+\w+|class\s+\w+|async\s+def|await|with\s+|try:|except:\<close>\<close>

definition url_python_re :: regex where
  "url_python_re = alts
     [Lit ''import'',
      seqs [Lit ''def'', ws1, wd1],
      seqs [Lit ''class'', ws1, wd1],
      seqs [Lit ''async'', ws1, Lit ''def''],
      Lit ''await'',
      seqs [Lit ''with'', ws1],
      Lit ''try:'',
      Lit ''except:'']"

text \<open>\<^verbatim>\<open>import\s+\w+|from\s+\w+\s+import|def\s+\w+\s*\(|class\s+\w+|async\s+def|@\w+|await\s+|with\s+|if\s+__name__\s*==\s*[\'"]__main__[\'"]\<close>\<close>

definition python_re :: regex where
  "python_re = alts
     [seqs [Lit ''import'', ws1, wd1],
      seqs [Lit ''from'', ws1, wd1, ws1, Lit ''import''],
      seqs [Lit ''def'', ws1, wd1, ws0, Lit ''(''],
      seqs [Lit ''class'', ws1, wd1],
      seqs [Lit ''async'', ws1, Lit ''def''],
      seqs [Lit ''@'', wd1],
      seqs [Lit ''await'', ws1],
      seqs [Lit ''with'', ws1],
      seqs [Lit ''if'', ws1, Lit ''__name__'', ws0, Lit ''=='', ws0, Cs (OneOf [sq, dq]),
            Lit ''__main__'', Cs (OneOf [sq, dq])]]"

text \<open>\<^verbatim>\<open>function\s+\w+\s*\(|\w+\s*=>\s*[\{\(]|const\s+\w+\s*=|let\s+\w+\s*=|var\s+\w+\s*=|import\s+.*from\s+[\'"]|export\s+|class\s+\w+\s*\{\s*constructor|new\s+\w+\(\<close>\<close>

definition javascript_re :: regex where
  "javascript_re = alts
     [seqs [Lit ''function'', ws1, wd1, ws0, Lit ''(''],
      seqs [wd1, ws0, Lit ''=>'', ws0, Cs (OneOf ''{('')],
      seqs [Lit ''const'', ws1, wd1, ws0, Lit ''=''],
      seqs [Lit ''let'', ws1, wd1, ws0, Lit ''=''],
      seqs [Lit ''var'', ws1, wd1, ws0, Lit ''=''],
      seqs [Lit ''import'', ws1, Star (Cs Dot), Lit ''from'', ws1, Cs (OneOf [sq, dq])],
      seqs [Lit ''export'', ws1],
      seqs [Lit ''class'', ws1, wd1, ws0, Lit ''{'', ws0, Lit ''constructor''],
      seqs [Lit ''new'', ws1, wd1, Lit ''('']]"

text \<open>\<^verbatim>\<open>:\s*\w+(\[\])?|interface\s+\w+|<\w+>|implements\s+|namespace\s+\<close>\<close>

definition typescript_re :: regex where
  "typescript_re = alts
     [seqs [Lit '':'', ws0, wd1, Opt (Group 1 (Lit ''[]''))],
      seqs [Lit ''interface'', ws1, wd1],
      seqs [Lit ''<'', wd1, Lit ''>''],
      seqs [Lit ''implements'', ws1],
      seqs [Lit ''namespace'', ws1]]"

text \<open>\<^verbatim>\<open><(!DOCTYPE|html|head|body|div|span|p|a|img|ul|ol|li|table|form|input)\b|<\/\w+>\<close>\<close>

definition html_re :: regex where
  "html_re = alts
     [seqs [Lit ''<'',
            Group 1 (alts [Lit ''!DOCTYPE'', Lit ''html'', Lit ''head'', Lit ''body'', Lit ''div'',
              Lit ''span'', Lit ''p'', Lit ''a'', Lit ''img'', Lit ''ul'', Lit ''ol'', Lit ''li'',
              Lit ''table'', Lit ''form'', Lit ''input'']),
            WordB],
      seqs [Lit ''</'', wd1, Lit ''>'']]"

text \<open>\<^verbatim>\<open>SELECT\s+.+\s+FROM|INSERT\s+INTO|UPDATE\s+.+\s+SET|DELETE\s+FROM|CREATE\s+TABLE|ALTER\s+TABLE|DROP\s+TABLE\<close>\<close>

definition sql_re :: regex where
  "sql_re = alts
     [seqs [Lit ''SELECT'', ws1, Plus (Cs Dot), ws1, Lit ''FROM''],
      seqs [Lit ''INSERT'', ws1, Lit ''INTO''],
      seqs [Lit ''UPDATE'', ws1, Plus (Cs Dot), ws1, Lit ''SET''],
      seqs [Lit ''DELETE'', ws1, Lit ''FROM''],
      seqs [Lit ''CREATE'', ws1, Lit ''TABLE''],
      seqs [Lit ''ALTER'', ws1, Lit ''TABLE''],
      seqs [Lit ''DROP'', ws1, Lit ''TABLE'']]"

text \<open>\<^verbatim>\<open>^\s*\{\s*"\w+"\s*:\s*\<close> and \<^verbatim>\<open>}\s*$\<close>\<close>

definition json_open_re :: regex where
  "json_open_re = seqs [Bol, ws0, Lit ''{'', ws0, Lit [dq], wd1, Lit [dq], ws0, Lit '':'', ws0]"

definition json_close_re :: regex where
  "json_close_re = seqs [Lit ''}'', ws0, Eol]"

text \<open>\<^verbatim>\<open>public\s+(class|interface)|private\s+\w+|protected\s+\w+|@Override|import\s+java\.|System\.out\.print\<close>\<close>

definition java_re :: regex where
  "java_re = alts
     [seqs [Lit ''public'', ws1, Group 1 (alts [Lit ''class'', Lit ''interface''])],
      seqs [Lit ''private'', ws1, wd1],
      seqs [Lit ''protected'', ws1, wd1],
      Lit ''@Override'',
      seqs [Lit ''import'', ws1, Lit ''java.''],
      Lit ''System.out.print'']"

text \<open>\<^verbatim>\<open>#include\s+<\w+(\.\w+)?>|std::|int\s+main\s*\(\s*(?:void|int\s+argc)|void\s+\w+\s*\(\s*\w+\<close>\<close>

definition cpp_re :: regex where
  "cpp_re = alts
     [seqs [Lit ''#include'', ws1, Lit ''<'', wd1, Opt (Group 1 (seqs [Lit ''.'', wd1])), Lit ''>''],
      Lit ''std::'',
      seqs [Lit ''int'', ws1, Lit ''main'', ws0, Lit ''('', ws0,
            alts [Lit ''void'', seqs [Lit ''int'', ws1, Lit ''argc'']]],
      seqs [Lit ''void'', ws1, wd1, ws0, Lit ''('', ws0, wd1]]"

text \<open>\<^verbatim>\<open>package\s+main|import\s+\(\s*"|func\s+\w+\s*\(|go\s+func|make\(\w+\)\<close>\<close>

definition go_re :: regex where
  "go_re = alts
     [seqs [Lit ''package'', ws1, Lit ''main''],
      seqs [Lit ''import'', ws1, Lit ''('', ws0, Lit [dq]],
      seqs [Lit ''func'', ws1, wd1, ws0, Lit ''(''],
      seqs [Lit ''go'', ws1, Lit ''func''],
      seqs [Lit ''make('', wd1, Lit '')'']]"

text \<open>\<^verbatim>\<open>fn\s+\w+|let\s+mut\s+|struct\s+\w+|impl\s+|use\s+\w+::|pub\s+fn\<close>\<close>

definition rust_re :: regex where
  "rust_re = alts
     [seqs [Lit ''fn'', ws1, wd1],
      seqs [Lit ''let'', ws1, Lit ''mut'', ws1],
      seqs [Lit ''struct'', ws1, wd1],
      seqs [Lit ''impl'', ws1],
      seqs [Lit ''use'', ws1, wd1, Lit ''::''],
      seqs [Lit ''pub'', ws1, Lit ''fn'']]"

text \<open>\<^verbatim>\<open>#!/bin/(ba)?sh|export\s+\w+=|\$\(\w+\)|if\s+\[\s+|\[\s+.+\s+\]\<close>\<close>

definition bash_re :: regex where
  "bash_re = alts
     [seqs [Lit ''#!/bin/'', Opt (Group 1 (Lit ''ba'')), Lit ''sh''],
      seqs [Lit ''export'', ws1, wd1, Lit ''=''],
      seqs [Lit ''$('', wd1, Lit '')''],
      seqs [Lit ''if'', ws1, Lit ''['', ws1],
      seqs [Lit ''['', ws1, Plus (Cs Dot), ws1, Lit '']'']]"

text \<open>\<^verbatim>\<open>^\s*\w+:\s*\n\s+-\s+\<close>\<close>

definition yaml_re :: regex where
  "yaml_re = seqs [Bol, ws0, wd1, Lit '':'', ws0, Lit [nl], ws1, Lit ''-'', ws1]"

definition context_domains :: "string list" where
  "context_domains = [''crawl4ai.com'', ''pydantic.dev'', ''github.io/langgraph'']"

text \<open>
  The hint and the URL are optional arguments (\<^verbatim>\<open>None\<close> by default); in a condition
  Python takes \<^verbatim>\<open>None\<close> and the empty text for false.
\<close>

fun truthy :: "string option \<Rightarrow> bool" where
  "truthy None = False"
| "truthy (Some s) = (s \<noteq> [])"

fun str_of :: "string option \<Rightarrow> string" where
  "str_of None = []"
| "str_of (Some s) = s"

definition detect_code_language :: "string \<Rightarrow> string option \<Rightarrow> string option \<Rightarrow> string" where
  "detect_code_language code_text language_hint url =
     (if truthy language_hint \<and> strip (str_of language_hint) \<noteq> [] \<and>
         lower (strip (str_of language_hint)) \<noteq> ''text''
      then lower (strip (str_of language_hint))
      else if truthy url \<and> list_ex (\<lambda>domain. str_contains (str_of url) domain) context_domains \<and>
              re_search url_python_re no_flags code_text
      then ''python''
      else if re_search python_re IGNORECASE code_text then ''python''
      else if re_search javascript_re no_flags code_text
      then (if re_search typescript_re no_flags code_text then ''typescript'' else ''javascript'')
      else if re_search html_re IGNORECASE code_text then ''html''
      else if re_search sql_re IGNORECASE code_text then ''sql''
      else if re_search json_open_re no_flags code_text \<and> re_search json_close_re no_flags code_text
      then ''json''
      else if re_search java_re no_flags code_text then ''java''
      else if re_search cpp_re no_flags code_text then ''cpp''
      else if re_search go_re no_flags code_text then ''go''
      else if re_search rust_re no_flags code_text then ''rust''
      else if re_search bash_re no_flags code_text then ''bash''
      else if re_search yaml_re MULTILINE code_text then ''yaml''
      else ''text'')"

section \<open>The \<^verbatim>\<open>json\<close> module\<close>

text \<open>
  \<^verbatim>\<open>json.loads\<close> and \<^verbatim>\<open>json.dumps(..., indent=2)\<close> belong to the Python library, not to
  the program. They are modelled here on the part of JSON whose values need no floating
  point and whose strings stay within the characters of the embedding. The decoder has
  three answers: the value of the text, \<open>Invalid\<close> where \<^verbatim>\<open>json.loads\<close> raises, and
  \<open>Unmodelled\<close> for a text that does not decode here and shows a number with a fraction
  or an exponent, \<^verbatim>\<open>NaN\<close>, \<^verbatim>\<open>Infinity\<close> or a \<^verbatim>\<open>\u\<close> escape, on which the model says nothing.
  Integers are unbounded, as Python's are; the limits of the interpreter (recursion depth,
  the longest integer literal) are left out. An object is a Python \<^verbatim>\<open>dict\<close>: a key keeps
  the place of its first occurrence and the value of its last.
\<close>

datatype json =
    JNull
  | JBool bool
  | JInt int
  | JStr string
  | JArr "json list"
  | JObj "(string \<times> json) list"

definition is_json_ws :: "char \<Rightarrow> bool" where
  "is_json_ws c = (c = CHR '' '' \<or> c = CHR 0x09 \<or> c = nl \<or> c = cr)"

definition skip_ws :: "string \<Rightarrow> string" where
  "skip_ws s = dropWhile is_json_ws s"

definition is_digit :: "char \<Rightarrow> bool" where
  "is_digit c = (48 \<le> (of_char c :: nat) \<and> (of_char c :: nat) \<le> 57)"

definition digit_val :: "char \<Rightarrow> nat" where
  "digit_val c = of_char c - 48"

definition nat_of_digits :: "string \<Rightarrow> nat" where
  "nat_of_digits ds = foldl (\<lambda>a c. 10 * a + digit_val c) 0 ds"

definition hex_val :: "char \<Rightarrow> nat option" where
  "hex_val c = (let n = (of_char c :: nat) in
     if 48 \<le> n \<and> n \<le> 57 then Some (n - 48)
     else if 97 \<le> n \<and> n \<le> 102 then Some (n - 87)
     else if 65 \<le> n \<and> n \<le> 70 then Some (n - 55)
     else None)"

definition hex4 :: "string \<Rightarrow> nat option" where
  "hex4 s = (case map hex_val s of
     [Some a, Some b, Some c, Some d] \<Rightarrow> Some (((a * 16 + b) * 16 + c) * 16 + d)
   | _ \<Rightarrow> None)"

definition unescape :: "char \<Rightarrow> char option" where
  "unescape e =
     (if e = dq then Some dq
      else if e = bsl then Some bsl
      else if e = CHR ''/'' then Some CHR ''/''
      else if e = CHR ''b'' then Some (CHR 0x08)
      else if e = CHR ''f'' then Some (CHR 0x0C)
      else if e = CHR ''n'' then Some nl
      else if e = CHR ''r'' then Some cr
      else if e = CHR ''t'' then Some (CHR 0x09)
      else None)"

fun cons_str :: "char \<Rightarrow> (string \<times> string) option \<Rightarrow> (string \<times> string) option" where
  "cons_str c None = None"
| "cons_str c (Some (t, r)) = Some (c # t, r)"

text \<open>The text of a string from behind its opening quote on, and what follows the closing quote.\<close>

fun scanstring :: "string \<Rightarrow> (string \<times> string) option" where
  "scanstring [] = None"
| "scanstring (c # r) =
     (if c = dq then Some ([], r)
      else if c = bsl then
        (case r of
           [] \<Rightarrow> None
         | e # r' \<Rightarrow>
             if e = CHR ''u'' then
               (case hex4 (take 4 r') of
                  None \<Rightarrow> None
                | Some n \<Rightarrow> if n < 256 then cons_str (char_of n) (scanstring (drop 4 r')) else None)
             else
               (case unescape e of
                  None \<Rightarrow> None
                | Some ch \<Rightarrow> cons_str ch (scanstring r')))
      else if (of_char c :: nat) < 32 then None
      else cons_str c (scanstring r))"

definition scan_number :: "string \<Rightarrow> (json \<times> string) option" where
  "scan_number s =
     (let neg = startswith s ''-'';
          r = (if neg then tl s else s);
          ds = (if startswith r ''0'' then ''0'' else takeWhile is_digit r);
          r' = drop (length ds) r
      in if ds = [] then None
         else if startswith r' ''.'' \<or> startswith r' ''e'' \<or> startswith r' ''E'' then None
         else Some (JInt (if neg then - int (nat_of_digits ds) else int (nat_of_digits ds)), r'))"

fun dict_set :: "(string \<times> json) list \<Rightarrow> string \<Rightarrow> json \<Rightarrow> (string \<times> json) list" where
  "dict_set [] k v = [(k, v)]"
| "dict_set ((k', v') # d) k v = (if k' = k then (k, v) # d else (k', v') # dict_set d k v)"

definition dict_of :: "(string \<times> json) list \<Rightarrow> (string \<times> json) list" where
  "dict_of kvs = foldl (\<lambda>d kv. dict_set d (fst kv) (snd kv)) [] kvs"

text \<open>
  The decoder descends into arrays and objects; the first argument bounds the number of
  calls, and twice the length of the text is enough, since no two calls in a row leave
  the text as it is.
\<close>

fun parse_value :: "nat \<Rightarrow> string \<Rightarrow> (json \<times> string) option"
  and parse_elems :: "nat \<Rightarrow> string \<Rightarrow> (json list \<times> string) option"
  and parse_members :: "nat \<Rightarrow> string \<Rightarrow> ((string \<times> json) list \<times> string) option"
where
  "parse_value 0 s = None"
| "parse_value (Suc n) s =
     (if startswith s [dq] then
        (case scanstring (tl s) of None \<Rightarrow> None | Some (t, r) \<Rightarrow> Some (JStr t, r))
      else if startswith s ''{'' then
        (if startswith (skip_ws (tl s)) ''}'' then Some (JObj [], tl (skip_ws (tl s)))
         else case parse_members n (skip_ws (tl s)) of
                None \<Rightarrow> None
              | Some (kvs, r) \<Rightarrow> Some (JObj (dict_of kvs), r))
      else if startswith s ''['' then
        (if startswith (skip_ws (tl s)) '']'' then Some (JArr [], tl (skip_ws (tl s)))
         else case parse_elems n (skip_ws (tl s)) of
                None \<Rightarrow> None
              | Some (vs, r) \<Rightarrow> Some (JArr vs, r))
      else if startswith s ''null'' then Some (JNull, drop 4 s)
      else if startswith s ''true'' then Some (JBool True, drop 4 s)
      else if startswith s ''false'' then Some (JBool False, drop 5 s)
      else scan_number s)"
| "parse_elems 0 s = None"
| "parse_elems (Suc n) s =
     (case parse_value n s of
        None \<Rightarrow> None
      | Some (v, r) \<Rightarrow>
          if startswith (skip_ws r) '']'' then Some ([v], tl (skip_ws r))
          else if startswith (skip_ws r) '','' then
            (case parse_elems n (skip_ws (tl (skip_ws r))) of
               None \<Rightarrow> None
             | Some (vs, r') \<Rightarrow> Some (v # vs, r'))
          else None)"
| "parse_members 0 s = None"
| "parse_members (Suc n) s =
     (if startswith s [dq] then
        (case scanstring (tl s) of
           None \<Rightarrow> None
         | Some (k, r) \<Rightarrow>
             if startswith (skip_ws r) '':'' then
               (case parse_value n (skip_ws (tl (skip_ws r))) of
                  None \<Rightarrow> None
                | Some (v, r') \<Rightarrow>
                    if startswith (skip_ws r') ''}'' then Some ([(k, v)], tl (skip_ws r'))
                    else if startswith (skip_ws r') '','' then
                      (case parse_members n (skip_ws (tl (skip_ws r'))) of
                         None \<Rightarrow> None
                       | Some (kvs, r'') \<Rightarrow> Some ((k, v) # kvs, r''))
                    else None)
             else None)
      else None)"

text \<open>
  What the decoder below leaves out shows in the text: a digit directly before \<^verbatim>\<open>.\<close>, \<^verbatim>\<open>e\<close>
  or \<^verbatim>\<open>E\<close> (a number with a fraction or an exponent), the words \<^verbatim>\<open>NaN\<close> and \<^verbatim>\<open>Infinity\<close>,
  or \<^verbatim>\<open>\u\<close>.
\<close>

fun digit_then_point :: "string \<Rightarrow> bool" where
  "digit_then_point (c # d # s) = (is_digit c \<and> d \<in> set ''.eE'' \<or> digit_then_point (d # s))"
| "digit_then_point s = False"

definition unmodelled :: "string \<Rightarrow> bool" where
  "unmodelled s =
     (digit_then_point s \<or> str_contains s ''NaN'' \<or> str_contains s ''Infinity'' \<or>
      str_contains s [bsl, CHR ''u''])"

datatype decoded = Value json | Invalid | Unmodelled

definition json_loads :: "string \<Rightarrow> decoded" where
  "json_loads s =
     (case parse_value (2 * length s + 2) (skip_ws s) of
        None \<Rightarrow> if unmodelled s then Unmodelled else Invalid
      | Some (v, r) \<Rightarrow>
          if skip_ws r = [] then Value v else if unmodelled s then Unmodelled else Invalid)"

text \<open>\<^verbatim>\<open>str(n)\<close> for an integer.\<close>

fun str_nat :: "nat \<Rightarrow> string" where
  "str_nat n = (if n < 10 then [char_of (48 + n)] else str_nat (n div 10) @ [char_of (48 + n mod 10)])"

declare str_nat.simps [simp del]

definition str_int :: "int \<Rightarrow> string" where
  "str_int i = (if i < 0 then ''-'' @ str_nat (nat (- i)) else str_nat (nat i))"

definition hex_digit :: "nat \<Rightarrow> char" where
  "hex_digit n = (if n < 10 then char_of (48 + n) else char_of (87 + n))"

text \<open>The encoder with \<^verbatim>\<open>ensure_ascii\<close>, the default: only \<^verbatim>\<open>' '\<close> to \<^verbatim>\<open>'~'\<close> stay as they are.\<close>

definition escape_char :: "char \<Rightarrow> string" where
  "escape_char c =
     (if c = dq then [bsl, dq]
      else if c = bsl then [bsl, bsl]
      else if c = nl then [bsl, CHR ''n'']
      else if c = cr then [bsl, CHR ''r'']
      else if c = CHR 0x09 then [bsl, CHR ''t'']
      else if c = CHR 0x08 then [bsl, CHR ''b'']
      else if c = CHR 0x0C then [bsl, CHR ''f'']
      else if 32 \<le> (of_char c :: nat) \<and> (of_char c :: nat) \<le> 126 then [c]
      else [bsl, CHR ''u'', CHR ''0'', CHR ''0'',
            hex_digit ((of_char c :: nat) div 16), hex_digit ((of_char c :: nat) mod 16)])"

definition encode_string :: "string \<Rightarrow> string" where
  "encode_string s = [dq] @ concat (map escape_char s) @ [dq]"

definition newline_indent :: "nat \<Rightarrow> string" where
  "newline_indent level = nl # replicate (2 * level) CHR '' ''"

fun render :: "nat \<Rightarrow> json \<Rightarrow> string" where
  "render level JNull = ''null''"
| "render level (JBool b) = (if b then ''true'' else ''false'')"
| "render level (JInt i) = str_int i"
| "render level (JStr s) = encode_string s"
| "render level (JArr vs) =
     (if vs = [] then ''[]''
      else ''['' @ newline_indent (Suc level) @
           join ('','' @ newline_indent (Suc level)) (map (render (Suc level)) vs) @
           newline_indent level @ '']'')"
| "render level (JObj kvs) =
     (if kvs = [] then ''{}''
      else ''{'' @ newline_indent (Suc level) @
           join ('','' @ newline_indent (Suc level))
             (map (\<lambda>kv. encode_string (fst kv) @ '': '' @ render (Suc level) (snd kv)) kvs) @
           newline_indent level @ ''}'')"

definition json_dumps :: "json \<Rightarrow> string" where
  "json_dumps v = render 0 v"

text \<open>
  The body of the \<^verbatim>\<open>try\<close> of the program, \<^verbatim>\<open>json.dumps(json.loads(code_text), indent=2)\<close>,
  with \<open>None\<close> where it raises. It stands for the library on the texts that the model
  decides, and the properties below apply it to such texts only; on an unmodelled text it
  answers \<open>None\<close> for want of the value.
\<close>

definition py_json_pretty :: "string \<Rightarrow> string option" where
  "py_json_pretty code_text =
     (case json_loads code_text of
        Value v \<Rightarrow> Some (json_dumps v)
      | Invalid \<Rightarrow> None
      | Unmodelled \<Rightarrow> None)"

section \<open>\<^verbatim>\<open>process_code_block\<close>\<close>

datatype py_error = ValueError | IndexError

text \<open>\<^verbatim>\<open>min\<close> of an empty sequence raises \<^verbatim>\<open>ValueError\<close>.\<close>

fun py_min :: "nat list \<Rightarrow> py_error + nat" where
  "py_min [] = Inl ValueError"
| "py_min (x # xs) = Inr (fold min xs x)"

text \<open>
  The two \<^verbatim>\<open>while\<close> loops that pop blank lines off the front and off the end of
  \<^verbatim>\<open>lines\<close>.
\<close>

definition is_blank :: "string \<Rightarrow> bool" where
  "is_blank line = (strip line = [])"

definition pop_blank_lines :: "string list \<Rightarrow> string list" where
  "pop_blank_lines lines = rev (dropWhile is_blank (rev (dropWhile is_blank lines)))"

text \<open>\<^verbatim>\<open>len(line) - len(line.lstrip())\<close>\<close>

definition indent_of :: "string \<Rightarrow> nat" where
  "indent_of line = length line - length (lstrip line)"

text \<open>
  The body of the loop over \<^verbatim>\<open>lines\<close>, which the four branches of the function share up
  to the substitutions \<open>fix\<close> they apply to \<^verbatim>\<open>content\<close>.
\<close>

definition format_line :: "(string \<Rightarrow> string) \<Rightarrow> nat \<Rightarrow> string \<Rightarrow> string" where
  "format_line fix min_indent line =
     (if is_blank line then []
      else let indent = indent_of line;
               relative_indent =
                 (if indent > min_indent then replicate (indent - min_indent) CHR '' '' else []);
               content = lstrip line
           in relative_indent @ fix content)"

text \<open>\<^verbatim>\<open>re.sub(r'kw(\w+)', r'kw \1', content)\<close> for a keyword \<open>kw\<close>.\<close>

definition kw_fix :: "string \<Rightarrow> string \<Rightarrow> string" where
  "kw_fix kw content = re_sub (Seq (Lit kw) (Group 1 wd1)) [T kw, T '' '', G 1] content"

definition python_keywords :: "string list" where
  "python_keywords =
     [''import'', ''from'', ''def'', ''class'', ''if'', ''elif'', ''for'', ''while'', ''with'',
      ''return'', ''except'', ''as'', ''in'', ''await'', ''async'']"

definition js_keywords :: "string list" where
  "js_keywords =
     [''function'', ''const'', ''let'', ''var'', ''if'', ''else'', ''for'', ''while'', ''switch'',
      ''return'']"

text \<open>\<^verbatim>\<open>re.sub(r'(Name)\s*\(', r'\1(', content)\<close>\<close>

definition call_fix :: "string \<Rightarrow> string \<Rightarrow> string" where
  "call_fix name content =
     re_sub (seqs [Group 1 (Lit name), ws0, Lit [CHR ''('']]) [G 1, T [CHR ''('']] content"

definition crawl4ai_names :: "string list" where
  "crawl4ai_names = [''CrawlerRunConfig'', ''AsyncWebCrawler'', ''DefaultMarkdownGenerator'']"

text \<open>\<^verbatim>\<open>re.sub(r'\.(\w+)\(', r'.\1(', content)\<close>\<close>

definition chain_fix :: "string \<Rightarrow> string" where
  "chain_fix content =
     re_sub (seqs [Lit ''.'', Group 1 wd1, Lit [CHR ''('']]) [T ''.'', G 1, T [CHR ''('']] content"

text \<open>
  \<^verbatim>\<open>re.sub(r'([^a])o([^b])', r'\1 o \2', content)\<close> for an operator \<open>o\<close> and the excluded
  characters \<open>a\<close> before and \<open>b\<close> behind it.
\<close>

definition op_fix :: "string \<Rightarrow> char \<Rightarrow> string \<Rightarrow> string \<Rightarrow> string" where
  "op_fix a o' b content =
     re_sub (seqs [Group 1 (Cs (NoneOf a)), Lit [o'], Group 2 (Cs (NoneOf b))])
       [G 1, T ('' '' @ [o'] @ '' ''), G 2] content"

text \<open>\<^verbatim>\<open>'crawl4ai' in url.lower() if url else False\<close>\<close>

definition crawl4ai_url :: "string option \<Rightarrow> bool" where
  "crawl4ai_url url = (if truthy url then str_contains (lower (str_of url)) ''crawl4ai'' else False)"

definition python_fix :: "string option \<Rightarrow> string \<Rightarrow> string" where
  "python_fix url content =
     (let content = fold kw_fix python_keywords content;
          content = (if crawl4ai_url url then fold call_fix crawl4ai_names content else content);
          content = chain_fix content;
          content = op_fix ''=!<>'' CHR ''='' ''='' content;
          content = op_fix ''+'' CHR ''+'' ''+='' content;
          content = op_fix ''-'' CHR ''-'' ''-='' content;
          content = op_fix ''*'' CHR ''*'' ''*='' content;
          content = op_fix ''/'' CHR ''/'' ''/='' content
      in content)"

definition js_fix :: "string \<Rightarrow> string" where
  "js_fix content =
     (let content = fold kw_fix js_keywords content;
          content = op_fix ''=!<>'' CHR ''='' ''='' content;
          content = op_fix ''+'' CHR ''+'' ''+='' content;
          content = op_fix ''-'' CHR ''-'' ''-='' content
      in content)"

text \<open>\<^verbatim>\<open>re.compile(r'^(import|from)', re.MULTILINE)\<close>\<close>

definition import_line_re :: regex where
  "import_line_re = Seq Bol (Group 1 (Alt (Lit ''import'') (Lit ''from'')))"

definition crawl4ai_import :: string where
  "crawl4ai_import = ''from crawl4ai import AsyncWebCrawler, CrawlerRunConfig''"

text \<open>The block under \<^verbatim>\<open># Ensure proper imports for Crawl4AI (add if missing)\<close>.\<close>

definition add_crawl4ai_import :: "string \<Rightarrow> string" where
  "add_crawl4ai_import formatted_code =
     (if str_contains formatted_code ''AsyncWebCrawler'' \<and>
         \<not> str_contains formatted_code ''from crawl4ai import AsyncWebCrawler''
      then (case re_find import_line_re MULTILINE None formatted_code 0 of
              Some (insert_point, st) \<Rightarrow>
                take insert_point formatted_code @ crawl4ai_import @ [nl] @
                drop insert_point formatted_code
            | None \<Rightarrow> formatted_code)
      else formatted_code)"

text \<open>
  The function. Its first argument stands for the library call in the \<^verbatim>\<open>try\<close> of the
  JSON branch, \<^verbatim>\<open>json.dumps(json.loads(code_text), indent=2)\<close>, with \<open>None\<close> when the call
  raises; \<open>py_json_pretty\<close> is that call on the modelled part of JSON. The result is
  \<open>Inl\<close> where the function would raise.
\<close>

definition process_code_block ::
  "(string \<Rightarrow> string option) \<Rightarrow> string \<Rightarrow> string \<Rightarrow> string option \<Rightarrow> py_error + (string \<times> string)"
where
  "process_code_block json_pretty code_text language url =
     (if length code_text < 5 then Inr (code_text, language)
      else let lines = pop_blank_lines (splitlines code_text) in
        if lines = [] then Inr (code_text, language)
        else let non_empty_lines = filter (\<lambda>line. \<not> is_blank line) lines in
          if non_empty_lines = [] then Inr (code_text, language)
          else case py_min (map indent_of non_empty_lines) of
            Inl e \<Rightarrow> Inl e
          | Inr min_indent \<Rightarrow>
              if language = ''python'' then
                let formatted_code = join [nl] (map (format_line (python_fix url) min_indent) lines)
                in Inr (if crawl4ai_url url then add_crawl4ai_import formatted_code
                        else formatted_code, ''python'')
              else if language \<in> set [''javascript'', ''typescript'', ''jsx'', ''tsx''] then
                Inr (join [nl] (map (format_line js_fix min_indent) lines), language)
              else if language \<in> set [''json'', ''yaml''] then
                (case (if language = ''json'' then json_pretty code_text else None) of
                   Some dumped \<Rightarrow> Inr (dumped, language)
                 | None \<Rightarrow> Inr (join [nl] (map (format_line id min_indent) lines), language))
              else Inr (join [nl] (map (format_line id min_indent) lines), language))"

section \<open>\<^verbatim>\<open>post_process_markdown\<close>\<close>

text \<open>\<^verbatim>\<open>```[^\n]*\n\<close> and \<^verbatim>\<open>```([^\n]*)\n(.*?)\n```\<close> with \<^verbatim>\<open>re.DOTALL\<close>\<close>

definition fence_re :: regex where
  "fence_re = seqs [Lit ''```'', Star (Cs (NoneOf [nl])), Lit [nl]]"

definition code_block_re :: regex where
  "code_block_re =
     seqs [Lit ''```'', Group 1 (Star (Cs (NoneOf [nl]))), Lit [nl],
           Group 2 (LazyStar (Cs Dot)), Lit [nl], Lit ''```'']"

definition group :: "caps \<Rightarrow> nat \<Rightarrow> string" where
  "group g n = (case map_of g n of Some m \<Rightarrow> m | None \<Rightarrow> [])"

text \<open>The inner function \<^verbatim>\<open>replace_code_block(match)\<close>.\<close>

definition replace_code_block ::
  "(string \<Rightarrow> string option) \<Rightarrow> string \<Rightarrow> caps \<Rightarrow> py_error + string"
where
  "replace_code_block json_pretty url g =
     (let lang = lower (strip (group g 1));
          code = group g 2
      in case process_code_block json_pretty code (if lang \<noteq> [] then lang else ''text'') (Some url) of
           Inl e \<Rightarrow> Inl e
         | Inr (formatted_code, detected_lang) \<Rightarrow>
             let final_lang = (if lang = [] \<or> lang = ''text'' then detected_lang else lang)
             in Inr (''```'' @ final_lang @ [nl] @ formatted_code @ [nl] @ ''```''))"

text \<open>\<^verbatim>\<open>re.sub\<close> with a function that may raise: the first error ends the substitution.\<close>

fun sub_pieces :: "(caps \<Rightarrow> py_error + string) \<Rightarrow> piece list \<Rightarrow> py_error + string" where
  "sub_pieces f [] = Inr []"
| "sub_pieces f (Text c # ps) =
     (case sub_pieces f ps of Inl e \<Rightarrow> Inl e | Inr r \<Rightarrow> Inr (c # r))"
| "sub_pieces f (Hit m g # ps) =
     (case f g of
        Inl e \<Rightarrow> Inl e
      | Inr t \<Rightarrow> (case sub_pieces f ps of Inl e \<Rightarrow> Inl e | Inr r \<Rightarrow> Inr (t @ r)))"

text \<open>\<^verbatim>\<open>s.split(sep)\<close> for a separator of one character, and \<^verbatim>\<open>parts[i]\<close>.\<close>

fun split_on :: "char \<Rightarrow> string \<Rightarrow> string list" where
  "split_on sep [] = [[]]"
| "split_on sep (c # s) =
     (if c = sep then [] # split_on sep s
      else (case split_on sep s of [] \<Rightarrow> [[c]] | p # ps \<Rightarrow> (c # p) # ps))"

definition index :: "string list \<Rightarrow> nat \<Rightarrow> py_error + string" where
  "index parts i = (if i < length parts then Inr (parts ! i) else Inl IndexError)"

text \<open>
  The function; \<open>timestamp\<close> is the text of \<^verbatim>\<open>datetime.datetime.now().isoformat()\<close> at the
  call.
\<close>

definition post_process_markdown ::
  "(string \<Rightarrow> string option) \<Rightarrow> string \<Rightarrow> string \<Rightarrow> string \<Rightarrow> py_error + string"
where
  "post_process_markdown json_pretty timestamp markdown_content url =
     (let code_blocks_count = re_findall_count fence_re markdown_content in
      case sub_pieces (replace_code_block json_pretty url)
             (re_scan code_block_re DOTALL None markdown_content) of
        Inl e \<Rightarrow> Inl e
      | Inr processed_content \<Rightarrow>
          (case (if str_contains url ''://'' then index (split_on CHR ''/'' url) 2
                 else index (split_on CHR ''/'' url) 0) of
             Inl e \<Rightarrow> Inl e
           | Inr domain \<Rightarrow>
               let frontmatter =
                     ''---'' @ [nl] @ ''url: '' @ url @ [nl] @ ''source: gemini'' @ [nl] @
                     ''date_processed: '' @ timestamp @ [nl] @ ''domain: '' @ domain @ [nl] @
                     ''content_type: documentation'' @ [nl] @
                     ''contains_code: '' @ (if code_blocks_count > 0 then ''True'' else ''False'') @ [nl];
                   frontmatter =
                     (if code_blocks_count > 0
                      then frontmatter @ ''code_blocks_count: '' @ str_nat code_blocks_count @ [nl]
                      else frontmatter);
                   frontmatter = frontmatter @ ''formatter_version: 2.1'' @ [nl] @ ''---'' @ [nl, nl];
                   header = ''# '' @ domain @ [nl, nl] @ ''> Original URL: ['' @ url @ '']('' @ url @
                            '')'' @ [nl, nl]
               in Inr (frontmatter @ header @ processed_content)))"

section \<open>Notions of the properties\<close>

text \<open>
  The number of non-blank lines of a text, with the lines of \<^verbatim>\<open>str.splitlines\<close> and the
  blank lines of \<^verbatim>\<open>str.strip\<close>, as the program has them.
\<close>

definition nonblank_lines :: "string \<Rightarrow> nat" where
  "nonblank_lines x = length (filter (\<lambda>line. \<not> is_blank line) (splitlines x))"

text \<open>
  \<open>same_code e m\<close>: the text \<open>e\<close> is the text \<open>m\<close> up to white space. Both have the same
  characters other than white space, in the same order, and \<open>e\<close> has no character that
  \<open>m\<close> has not, except the blank.
\<close>

definition same_code :: "string \<Rightarrow> string \<Rightarrow> bool" where
  "same_code e m =
     (filter (\<lambda>c. \<not> is_space c) e = filter (\<lambda>c. \<not> is_space c) m \<and>
      set e \<subseteq> insert CHR '' '' (set m))"

text \<open>
  The value of the variable \<^verbatim>\<open>formatted_code\<close> of the Python branch where the block that
  adds the import begins: the lines of the text, re-indented and with the substitutions
  applied, joined by line feeds. A text without a non-blank line never gets there and has
  none. \<open>import_synthesised\<close> says that the text gets there under a crawl4ai URL and meets
  the three conditions under which that block inserts the import line.
\<close>

definition python_formatted :: "string \<Rightarrow> string option \<Rightarrow> string" where
  "python_formatted code_text url =
     (let lines = pop_blank_lines (splitlines code_text) in
      case py_min (map indent_of (filter (\<lambda>line. \<not> is_blank line) lines)) of
        Inl e \<Rightarrow> []
      | Inr min_indent \<Rightarrow> join [nl] (map (format_line (python_fix url) min_indent) lines))"

definition import_synthesised :: "string \<Rightarrow> string option \<Rightarrow> bool" where
  "import_synthesised code_text url =
     (5 \<le> length code_text \<and> crawl4ai_url url \<and>
      str_contains (python_formatted code_text url) ''AsyncWebCrawler'' \<and>
      \<not> str_contains (python_formatted code_text url) ''from crawl4ai import AsyncWebCrawler'' \<and>
      re_find import_line_re MULTILINE None (python_formatted code_text url) 0 \<noteq> None)"


section \<open>Properties\<close>

subsection \<open>Detection\<close>

lemma strip_Nil [simp]: "strip [] = []"
  by (simp add: strip_def rstrip_def lstrip_def)

lemma lit_match_startswith:
  "startswith s l \<Longrightarrow> lit_match no_flags l (p, s, g) \<noteq> []"
proof (induction l arbitrary: p s)
  case Nil
  then show ?case by simp
next
  case (Cons a l)
  then obtain s' where s: "s = a # s'" and t: "startswith s' l"
    by (cases s) (auto simp: startswith_def)
  have "step_char (\<lambda>c. ch_eq no_flags c a) (p, s, g) = [(Some a, s', g)]"
    by (simp add: s ch_eq_def no_flags_def)
  with Cons.IH [OF t, of "Some a"] show ?case by simp
qed

lemma re_find_literal_alt:
  "str_contains s l \<Longrightarrow> re_find (Alt (Lit l) r) no_flags p s i \<noteq> None"
proof (induction s arbitrary: p i)
  case Nil
  then show ?case by simp
next
  case (Cons c s)
  show ?case
  proof (cases "startswith (c # s) l")
    case True
    then have "lit_match no_flags l (p, c # s, []) \<noteq> []" by (rule lit_match_startswith)
    then show ?thesis by (cases "lit_match no_flags l (p, c # s, [])") auto
  next
    case False
    with Cons.prems have "str_contains s l" by simp
    from Cons.IH [OF this] show ?thesis by (auto split: list.splits)
  qed
qed

lemma url_python_re_import:
  "str_contains x ''import'' \<Longrightarrow> re_search url_python_re no_flags x"
  unfolding re_search_def url_python_re_def alts.simps by (rule re_find_literal_alt)

text \<open>
  C3. A hint that is not empty after trimming and is not \<^verbatim>\<open>text\<close> in any case of the
  letters decides the answer of \<^verbatim>\<open>detect_code_language\<close>: the answer is the hint, trimmed
  and in lower case, whatever the code text and the URL are. In particular the hint
  \<^verbatim>\<open>rust\<close> gives \<^verbatim>\<open>rust\<close> on every text.
\<close>

theorem detect_hint_precedence:
  "(strip h \<noteq> [] \<and> lower (strip h) \<noteq> ''text'' \<longrightarrow>
      detect_code_language x (Some h) u = lower (strip h)) \<and>
   detect_code_language x (Some ''rust'') u = ''rust''"
proof -
  have a: "detect_code_language x (Some h) u = lower (strip h)"
    if "strip h \<noteq> []" "lower (strip h) \<noteq> ''text''" for h
  proof -
    from that have "h \<noteq> []" by auto
    with that show ?thesis by (simp add: detect_code_language_def)
  qed
  have s: "strip ''rust'' = ''rust''"
    by (simp add: strip_def rstrip_def lstrip_def is_space_def)
  have l: "lower ''rust'' = ''rust''"
    by (simp add: lower_def lower_char_def)
  have "detect_code_language x (Some ''rust'') u = lower (strip ''rust'')"
    by (rule a) (simp_all add: s l)
  with a show ?thesis by (simp add: s l)
qed

theorem detect_hint_precedence_witness:
  "strip ''  Rust '' \<noteq> [] \<and> lower (strip ''  Rust '') \<noteq> ''text'' \<and>
   detect_code_language ''import os'' (Some ''  Rust '') (Some ''https://docs.crawl4ai.com/'') = ''rust'' \<and>
   detect_code_language ''import os'' None (Some ''https://docs.crawl4ai.com/'') = ''python''"
proof -
  have s: "strip ''  Rust '' = ''Rust''"
    by (simp add: strip_def rstrip_def lstrip_def is_space_def)
  have l: "lower ''Rust'' = ''rust''"
    by code_simp
  have p: "detect_code_language ''import os'' None (Some ''https://docs.crawl4ai.com/'') = ''python''"
    by code_simp
  from detect_hint_precedence [of "''  Rust ''" "''import os''" "Some ''https://docs.crawl4ai.com/''"]
  show ?thesis by (simp add: s l p)
qed

text \<open>
  C10. With no hint (absent or empty), a URL that contains one of the three listed domains
  and a code text that contains the letters \<^verbatim>\<open>import\<close> anywhere, also inside a longer
  identifier, \<^verbatim>\<open>detect_code_language\<close> answers \<^verbatim>\<open>python\<close>; the patterns of the other
  languages are not consulted.
\<close>

theorem detect_url_context_import:
  assumes "str_contains x ''import''"
    and "list_ex (str_contains u) context_domains"
  shows "detect_code_language x None (Some u) = ''python'' \<and>
         detect_code_language x (Some []) (Some u) = ''python''"
proof -
  have u: "u \<noteq> []" using assms(2) by (auto simp: context_domains_def)
  have r: "re_search url_python_re no_flags x" using assms(1) by (rule url_python_re_import)
  show ?thesis using u r assms(2) by (simp add: detect_code_language_def)
qed

theorem detect_url_context_import_witness:
  "str_contains ''const importantVar = 1'' ''import'' \<and>
   list_ex (str_contains ''https://docs.pydantic.dev/latest/'') context_domains \<and>
   detect_code_language ''const importantVar = 1'' None (Some ''https://docs.pydantic.dev/latest/'') = ''python'' \<and>
   detect_code_language ''const importantVar = 1'' None None = ''javascript''"
proof -
  have a: "str_contains ''const importantVar = 1'' ''import''" by code_simp
  have b: "list_ex (str_contains ''https://docs.pydantic.dev/latest/'') context_domains" by code_simp
  have c: "detect_code_language ''const importantVar = 1'' None None = ''javascript''" by code_simp
  from detect_url_context_import [OF a b] a b c show ?thesis by simp
qed

subsection \<open>Reformatting: what the function returns\<close>

lemma py_min_nonempty: "xs \<noteq> [] \<Longrightarrow> \<exists>m. py_min xs = Inr m"
  by (cases xs) simp_all

lemma py_min_indents: "ls \<noteq> [] \<Longrightarrow> \<exists>m. py_min (map indent_of ls) = Inr m"
  by (intro py_min_nonempty) simp

lemma process_code_block_returns: "\<exists>t. process_code_block jp x L u = Inr (t, L)"
  unfolding process_code_block_def Let_def
  using py_min_indents [of "filter (\<lambda>line. \<not> is_blank line) (pop_blank_lines (splitlines x))"]
  by (auto split: option.splits)

lemma process_short: "length x < 5 \<Longrightarrow> process_code_block jp x L u = Inr (x, L)"
  by (simp add: process_code_block_def)


text \<open>
  C6, as amended. A text that is itself shorter than 5 characters, before any trimming, is
  returned unchanged together with the language that was given. (The program measures
  \<^verbatim>\<open>len(code_text)\<close>, not the length of the trimmed text.)
\<close>

theorem short_block_passthrough:
  "length x < 5 \<Longrightarrow> process_code_block jp x L u = Inr (x, L)"
  by (rule process_short)

theorem short_block_passthrough_witness:
  "length ''x=1'' < 5 \<and>
   process_code_block py_json_pretty ''x=1'' ''python'' None = Inr (''x=1'', ''python'')"
  using short_block_passthrough [of "''x=1''" py_json_pretty "''python''" None] by simp

text \<open>
  C6 as stated fails: \<^verbatim>\<open>"   ab"\<close> is 2 characters long when trimmed and 5 characters long
  as it is, and its indentation is removed.
\<close>

theorem short_block_passthrough_counterexample:
  "length (strip ''   ab'') < 5 \<and>
   process_code_block py_json_pretty ''   ab'' ''text'' None = Inr (''ab'', ''text'') \<and>
   process_code_block py_json_pretty ''   ab'' ''text'' None \<noteq> Inr (''   ab'', ''text'')"
  by code_simp

text \<open>
  C9. For every text, language and URL, and whatever the JSON library does, also when it
  raises, \<^verbatim>\<open>process_code_block\<close> returns a pair of a text and the language it was given;
  it never raises. The one operation in it that can fail, \<^verbatim>\<open>min\<close> of an empty sequence, is
  never reached: a block on which it would fail comes back as it is, unmodified, with the
  language that was given.
\<close>

theorem process_code_block_total:
  "(\<exists>t. process_code_block jp x L u = Inr (t, L)) \<and>
   (py_min (map indent_of (filter (\<lambda>line. \<not> is_blank line) (pop_blank_lines (splitlines x)))) =
      Inl e \<longrightarrow>
    process_code_block jp x L u = Inr (x, L))"
proof -
  let ?ne = "filter (\<lambda>line. \<not> is_blank line) (pop_blank_lines (splitlines x))"
  have "process_code_block jp x L u = Inr (x, L)" if "py_min (map indent_of ?ne) = Inl e"
  proof -
    from that py_min_indents [of ?ne] have "?ne = []" by (cases "?ne = []") auto
    then show ?thesis by (simp add: process_code_block_def Let_def)
  qed
  with process_code_block_returns [of jp x L u] show ?thesis by blast
qed

theorem process_code_block_total_witness:
  "py_min (map indent_of (filter (\<lambda>line. \<not> is_blank line)
     (pop_blank_lines (splitlines (''      '' @ [nl] @ ''  ''))))) = Inl ValueError \<and>
   process_code_block py_json_pretty (''      '' @ [nl] @ ''  '') ''python''
       (Some ''https://docs.crawl4ai.com/'') =
     Inr (''      '' @ [nl] @ ''  '', ''python'')"
proof -
  have m: "py_min (map indent_of (filter (\<lambda>line. \<not> is_blank line)
      (pop_blank_lines (splitlines (''      '' @ [nl] @ ''  ''))))) = Inl ValueError"
    by code_simp
  from process_code_block_total [of py_json_pretty "''      '' @ [nl] @ ''  ''" "''python''"
      "Some ''https://docs.crawl4ai.com/''" ValueError] m
  show ?thesis by simp
qed

text \<open>
  C8. The keyword substitutions of the Python branch also fire inside longer words:
  \<^verbatim>\<open>as(\w+)\<close> splits \<^verbatim>\<open>class\<close> and \<^verbatim>\<open>pass\<close>. The example of the claim,
  \<^verbatim>\<open>return1\<close>, comes out as the claim says.
\<close>

theorem python_keyword_fix_splits_words:
  "process_code_block jp (''class Foo:'' @ [nl] @ ''    pass'') ''python'' None =
     Inr (''clas s Foo:'' @ [nl] @ ''    pas s'', ''python'') \<and>
   process_code_block jp (''def foo():'' @ [nl] @ ''    return1'') ''python'' None =
     Inr (''def foo():'' @ [nl] @ ''    return 1'', ''python'')"
  by code_simp

text \<open>
  C7. With a crawl4ai URL and a block that names \<^verbatim>\<open>AsyncWebCrawler\<close> without importing it,
  the import line is put before the first line that begins with \<^verbatim>\<open>import\<close> or
  \<^verbatim>\<open>from\<close>; a block with no such line gets no import line at all.
\<close>

theorem import_synthesis_without_import_line:
  "process_code_block jp ''crawler = AsyncWebCrawler()'' ''python''
       (Some ''https://docs.crawl4ai.com/'') =
     Inr (''crawler  =  AsyncWebCrawler()'', ''python'') \<and>
   process_code_block jp (''x = 1'' @ [nl] @ ''import os'' @ [nl] @ ''c = AsyncWebCrawler()'')
       ''python'' (Some ''https://docs.crawl4ai.com/'') =
     Inr (''x  =  1'' @ [nl] @ ''from crawl4ai import AsyncWebCrawler, CrawlerRunConfig'' @ [nl] @
          ''import os'' @ [nl] @ ''c  =  AsyncWebCrawler()'', ''python'')"
  by code_simp

text \<open>
  C2. Reformatting is not idempotent on the Python and JavaScript branches: the
  substitution for \<^verbatim>\<open>=\<close> takes the spaces around an operator for its neighbours and adds
  two more at every pass.
\<close>

theorem reformat_not_idempotent:
  "process_code_block jp ''x = 10'' ''python'' None = Inr (''x  =  10'', ''python'') \<and>
   process_code_block jp ''x  =  10'' ''python'' None = Inr (''x   =   10'', ''python'') \<and>
   process_code_block jp ''x = 10'' ''javascript'' None = Inr (''x  =  10'', ''javascript'') \<and>
   process_code_block jp ''x  =  10'' ''javascript'' None = Inr (''x   =   10'', ''javascript'')"
  by code_simp

text \<open>
  C5. \<^verbatim>\<open>post_process_markdown\<close> never calls \<^verbatim>\<open>detect_code_language\<close>: a block without a
  hint goes to \<^verbatim>\<open>process_code_block\<close> as \<^verbatim>\<open>text\<close>, comes back as \<^verbatim>\<open>text\<close>, and that is
  what the new fence says, although the detector answers \<^verbatim>\<open>python\<close> for the same block.
\<close>

theorem assembler_does_not_detect:
  "post_process_markdown jp ''2025-01-01T00:00:00''
       (''```'' @ [nl] @ ''import os'' @ [nl] @ ''```'') ''https://example.com/page'' =
     Inr (''---'' @ [nl] @
          ''url: https://example.com/page'' @ [nl] @
          ''source: gemini'' @ [nl] @
          ''date_processed: 2025-01-01T00:00:00'' @ [nl] @
          ''domain: example.com'' @ [nl] @
          ''content_type: documentation'' @ [nl] @
          ''contains_code: True'' @ [nl] @
          ''code_blocks_count: 1'' @ [nl] @
          ''formatter_version: 2.1'' @ [nl] @
          ''---'' @ [nl, nl] @
          ''# example.com'' @ [nl, nl] @
          ''> Original URL: [https://example.com/page](https://example.com/page)'' @ [nl, nl] @
          ''```text'' @ [nl] @ ''import os'' @ [nl] @ ''```'') \<and>
   detect_code_language ''import os'' (Some []) (Some ''https://example.com/page'') = ''python''"
  by code_simp

subsection \<open>What a match consumes\<close>

lemma step_char_elem:
  "st' \<in> set (step_char P st) \<Longrightarrow>
     \<exists>c. rest_of st = c # rest_of st' \<and> P c \<and> caps_of st' = caps_of st"
proof -
  assume a: "st' \<in> set (step_char P st)"
  obtain p s g where st: "st = (p, s, g)" by (cases st)
  show ?thesis using a unfolding st
    by (cases s) (auto simp: rest_of_def caps_of_def split: if_splits)
qed

lemma rmatch_Cs: "rmatch (Cs cs) fl = step_char (cset_match fl cs)"
  by (rule ext) simp

lemma lit_match_elem:
  "st' \<in> set (lit_match no_flags l st) \<Longrightarrow>
     rest_of st = l @ rest_of st' \<and> caps_of st' = caps_of st"
proof (induction l arbitrary: st)
  case Nil
  then show ?case by simp
next
  case (Cons a l)
  then obtain st1 where s1: "st1 \<in> set (step_char (\<lambda>c. ch_eq no_flags c a) st)"
    and s2: "st' \<in> set (lit_match no_flags l st1)" by auto
  from step_char_elem [OF s1] have "rest_of st = a # rest_of st1" "caps_of st1 = caps_of st"
    by (auto simp: ch_eq_def no_flags_def)
  with Cons.IH [OF s2] show ?case by simp
qed

lemma star_greedy_class_elem:
  "st' \<in> set (star_greedy (step_char P) n st) \<Longrightarrow>
     \<exists>m. rest_of st = m @ rest_of st' \<and> (\<forall>c \<in> set m. P c) \<and> caps_of st' = caps_of st"
proof (induction n arbitrary: st)
  case 0
  then show ?case by simp
next
  case (Suc n)
  from Suc.prems consider (stop) "st' = st"
    | (go) st1 where "st1 \<in> set (step_char P st)" "st' \<in> set (star_greedy (step_char P) n st1)"
    by auto
  then show ?case
  proof cases
    case stop
    then show ?thesis by simp
  next
    case go
    from step_char_elem [OF go(1)] obtain c where
      c: "rest_of st = c # rest_of st1" "P c" "caps_of st1 = caps_of st" by blast
    from Suc.IH [OF go(2)] obtain m where
      m: "rest_of st1 = m @ rest_of st'" "\<forall>c \<in> set m. P c" "caps_of st' = caps_of st1" by blast
    have "rest_of st = (c # m) @ rest_of st'" using c m by simp
    moreover have "\<forall>d \<in> set (c # m). P d" using c m by simp
    ultimately show ?thesis using c m by metis
  qed
qed

lemma ws0_elem:
  "st' \<in> set (rmatch ws0 fl st) \<Longrightarrow>
     \<exists>m. rest_of st = m @ rest_of st' \<and> (\<forall>c \<in> set m. is_space c) \<and> caps_of st' = caps_of st"
  unfolding ws0_def using star_greedy_class_elem [of st' "cset_match fl Space"]
  by (auto simp: rmatch_Cs)

lemma wd1_elem:
  "st' \<in> set (rmatch wd1 fl st) \<Longrightarrow>
     \<exists>m. rest_of st = m @ rest_of st' \<and> caps_of st' = caps_of st"
proof -
  assume "st' \<in> set (rmatch wd1 fl st)"
  then obtain st1 where s1: "st1 \<in> set (step_char (cset_match fl Word) st)"
    and s2: "st' \<in> set (star_greedy (step_char (cset_match fl Word)) (length (rest_of st1)) st1)"
    by (auto simp: wd1_def Plus_def rmatch_Cs)
  from step_char_elem [OF s1] obtain c where
    c: "rest_of st = c # rest_of st1" "caps_of st1 = caps_of st" by blast
  from star_greedy_class_elem [OF s2] obtain m where
    m: "rest_of st1 = m @ rest_of st'" "caps_of st' = caps_of st1" by blast
  have "rest_of st = (c # m) @ rest_of st'" using c m by simp
  then show ?thesis using c m by metis
qed

lemma group_elem:
  assumes "st' \<in> set (rmatch (Group n r) fl st)"
  obtains st1 where "st1 \<in> set (rmatch r fl st)" "rest_of st' = rest_of st1"
    "caps_of st' = (n, take (length (rest_of st) - length (rest_of st1)) (rest_of st)) # caps_of st1"
  using assms by (auto simp: set_group_def rest_of_def caps_of_def)


subsection \<open>Substitutions that only move white space\<close>

lemma same_code_refl [simp]: "same_code s s"
  by (auto simp: same_code_def)

lemma same_code_trans: "same_code a b \<Longrightarrow> same_code b c \<Longrightarrow> same_code a c"
  by (auto simp: same_code_def)

lemma same_code_append:
  "same_code a b \<Longrightarrow> same_code c d \<Longrightarrow> same_code (a @ c) (b @ d)"
  by (auto simp: same_code_def)

lemma is_space_blank [simp]: "is_space CHR '' ''"
  by (simp add: is_space_def)

lemma same_code_Nil: "same_code e [] \<Longrightarrow> same_code (e @ a) a"
  using same_code_append [of e "[]" a a] by simp

lemma re_scan_same_code:
  assumes "\<And>p s st. st \<in> set (rmatch r fl (p, s, [])) \<Longrightarrow>
      \<exists>m. s = m @ rest_of st \<and> same_code (f (take (length s - length (rest_of st)) s) (caps_of st)) m"
  shows "same_code (concat (map (emit f) (re_scan r fl p s))) s"
  using assms
proof (induction r fl p s rule: re_scan.induct)
  case (1 r fl p s)
  note loc = "1.prems"
  have step: "same_code (concat (map (emit f) (case s of [] \<Rightarrow> [] | c # s' \<Rightarrow> Text c # re_scan r fl (Some c) s'))) s"
    if "\<And>c s'. s = c # s' \<Longrightarrow> same_code (concat (map (emit f) (re_scan r fl (Some c) s'))) s'"
  proof (cases s)
    case Nil
    then show ?thesis by simp
  next
    case (Cons c s')
    from that [OF Cons] same_code_append [of "[c]" "[c]"] show ?thesis
      unfolding Cons by simp
  qed
  show ?case
  proof (cases "rmatch r fl (p, s, [])")
    case Nil
    have "same_code (concat (map (emit f) (re_scan r fl (Some c) s'))) s'" if "s = c # s'" for c s'
      using "1.IH"(1) [OF Nil that] loc by blast
    from step [OF this] show ?thesis
      by (subst re_scan.simps) (simp add: Nil)
  next
    case (Cons st sts)
    then have "st \<in> set (rmatch r fl (p, s, []))" by simp
    from loc [OF this] obtain m where
      m: "s = m @ rest_of st"
      "same_code (f (take (length s - length (rest_of st)) s) (caps_of st)) m" by blast
    show ?thesis
    proof (cases "length (rest_of st) < length s")
      case True
      have "same_code (concat (map (emit f) (re_scan r fl (fst st) (rest_of st)))) (rest_of st)"
        using "1.IH"(2) [OF Cons True] loc by blast
      note rec = this
      have eq: "re_scan r fl p s =
          Hit (take (length s - length (rest_of st)) s) (caps_of st) #
          re_scan r fl (fst st) (rest_of st)"
        by (subst re_scan.simps) (simp add: Cons True)
      have "same_code (f (take (length s - length (rest_of st)) s) (caps_of st) @
          concat (map (emit f) (re_scan r fl (fst st) (rest_of st)))) (m @ rest_of st)"
        by (rule same_code_append [OF m(2) rec])
      then show ?thesis unfolding eq using m(1) by simp
    next
      case False
      with m(1) have e: "m = []"
        by (metis length_append length_greater_0_conv less_add_same_cancel2)
      have "same_code (concat (map (emit f) (re_scan r fl (Some c) s'))) s'" if "s = c # s'" for c s'
        using "1.IH"(3) [OF Cons False that] loc by blast
      from step [OF this] have r: "same_code (concat (map (emit f)
          (case s of [] \<Rightarrow> [] | c # s' \<Rightarrow> Text c # re_scan r fl (Some c) s'))) s" .
      have eq: "re_scan r fl p s = Hit [] (caps_of st) #
          (case s of [] \<Rightarrow> [] | c # s' \<Rightarrow> Text c # re_scan r fl (Some c) s')"
        by (subst re_scan.simps) (simp add: Cons False)
      from m(1) e have "take (length s - length (rest_of st)) s = []" by simp
      with m(2) e have "same_code (f [] (caps_of st)) []" by simp
      from same_code_append [OF this r] show ?thesis unfolding eq by simp
    qed
  qed
qed

lemma re_sub_same_code:
  assumes "\<And>p s st. st \<in> set (rmatch r no_flags (p, s, [])) \<Longrightarrow>
      \<exists>m. s = m @ rest_of st \<and> same_code (expand t (caps_of st)) m"
  shows "same_code (re_sub r t s) s"
  unfolding re_sub_def re_sub_fun_def using assms by (intro re_scan_same_code) blast


lemma seq_elem:
  "st' \<in> set (rmatch (Seq a b) fl st) \<longleftrightarrow>
     (\<exists>st1 \<in> set (rmatch a fl st). st' \<in> set (rmatch b fl st1))"
  by auto

lemma seqs3: "seqs [a, b, c] = Seq a (Seq b (Seq c Eps))"
  by (simp add: seqs_def)

lemma eps_elem: "st' \<in> set (rmatch Eps fl st) \<longleftrightarrow> st' = st"
  by auto

lemma group_lit_elem:
  assumes "st' \<in> set (rmatch (Group n (Lit l)) no_flags st)"
  shows "rest_of st = l @ rest_of st' \<and> caps_of st' = (n, l) # caps_of st"
proof -
  from assms obtain st1 where s: "st1 \<in> set (lit_match no_flags l st)"
    "rest_of st' = rest_of st1"
    "caps_of st' = (n, take (length (rest_of st) - length (rest_of st1)) (rest_of st)) # caps_of st1"
    by (rule group_elem) simp
  from lit_match_elem [OF s(1)] s(2,3) show ?thesis by simp
qed

lemma group_cs_elem:
  assumes "st' \<in> set (rmatch (Group n (Cs cs)) fl st)"
  shows "\<exists>c. rest_of st = c # rest_of st' \<and> caps_of st' = (n, [c]) # caps_of st"
proof -
  from assms obtain st1 where s: "st1 \<in> set (step_char (cset_match fl cs) st)"
    "rest_of st' = rest_of st1"
    "caps_of st' = (n, take (length (rest_of st) - length (rest_of st1)) (rest_of st)) # caps_of st1"
    by (rule group_elem) simp
  from step_char_elem [OF s(1)] s(2,3) show ?thesis by auto
qed

lemma group_wd1_elem:
  assumes "st' \<in> set (rmatch (Group n wd1) fl st)"
  shows "\<exists>w. rest_of st = w @ rest_of st' \<and> caps_of st' = (n, w) # caps_of st"
proof -
  from assms obtain st1 where s: "st1 \<in> set (rmatch wd1 fl st)"
    "rest_of st' = rest_of st1"
    "caps_of st' = (n, take (length (rest_of st) - length (rest_of st1)) (rest_of st)) # caps_of st1"
    by (rule group_elem)
  from wd1_elem [OF s(1)] s(2,3) show ?thesis by auto
qed

lemma lit_elem:
  "st' \<in> set (rmatch (Lit l) no_flags st) \<Longrightarrow>
     rest_of st = l @ rest_of st' \<and> caps_of st' = caps_of st"
  using lit_match_elem by simp

lemma kw_fix_same_code: "same_code (kw_fix kw s) s"
  unfolding kw_fix_def
proof (rule re_sub_same_code)
  fix p s st
  assume "st \<in> set (rmatch (Seq (Lit kw) (Group 1 wd1)) no_flags (p, s, []))"
  then obtain st1 where 1: "st1 \<in> set (rmatch (Lit kw) no_flags (p, s, []))"
    and 2: "st \<in> set (rmatch (Group 1 wd1) no_flags st1)"
    unfolding seq_elem by blast
  from lit_elem [OF 1] have a: "s = kw @ rest_of st1" "caps_of st1 = []"
    by (simp_all add: rest_of_def caps_of_def)
  from group_wd1_elem [OF 2] obtain w where
    b: "rest_of st1 = w @ rest_of st" "caps_of st = (1, w) # caps_of st1" by blast
  have "s = (kw @ w) @ rest_of st" using a b by simp
  moreover have "same_code (expand [T kw, T '' '', G 1] (caps_of st)) (kw @ w)"
    using a b by (simp add: same_code_def)
  ultimately show "\<exists>m. s = m @ rest_of st \<and> same_code (expand [T kw, T '' '', G 1] (caps_of st)) m"
    by blast
qed

lemma call_fix_same_code: "same_code (call_fix name s) s"
  unfolding call_fix_def seqs3
proof (rule re_sub_same_code)
  fix p s st
  assume "st \<in> set (rmatch (Seq (Group 1 (Lit name)) (Seq ws0 (Seq (Lit [CHR ''('']) Eps)))
                        no_flags (p, s, []))"
  then obtain st1 st2 where 1: "st1 \<in> set (rmatch (Group 1 (Lit name)) no_flags (p, s, []))"
    and 2: "st2 \<in> set (rmatch ws0 no_flags st1)"
    and 3: "st \<in> set (rmatch (Lit [CHR ''('']) no_flags st2)"
    unfolding seq_elem eps_elem by blast
  from group_lit_elem [OF 1] have a: "s = name @ rest_of st1" "caps_of st1 = [(1, name)]"
    by (simp_all add: rest_of_def caps_of_def)
  from ws0_elem [OF 2] obtain w where
    b: "rest_of st1 = w @ rest_of st2" "\<forall>c \<in> set w. is_space c" "caps_of st2 = caps_of st1"
    by blast
  from lit_elem [OF 3] have c: "rest_of st2 = [CHR ''(''] @ rest_of st" "caps_of st = caps_of st2"
    by simp_all
  have "s = (name @ w @ [CHR ''('']) @ rest_of st" using a b c by simp
  moreover have "filter (\<lambda>c. \<not> is_space c) w = []" using b(2) by (simp add: filter_empty_conv)
  then have "same_code (expand [G 1, T [CHR ''('']] (caps_of st)) (name @ w @ [CHR ''(''])"
    using a b c by (auto simp: same_code_def)
  ultimately show "\<exists>m. s = m @ rest_of st \<and> same_code (expand [G 1, T [CHR ''('']] (caps_of st)) m"
    by blast
qed

lemma chain_fix_same_code: "same_code (chain_fix s) s"
  unfolding chain_fix_def seqs3
proof (rule re_sub_same_code)
  fix p s st
  assume "st \<in> set (rmatch (Seq (Lit ''.'') (Seq (Group 1 wd1) (Seq (Lit [CHR ''('']) Eps)))
                        no_flags (p, s, []))"
  then obtain st1 st2 where 1: "st1 \<in> set (rmatch (Lit ''.'') no_flags (p, s, []))"
    and 2: "st2 \<in> set (rmatch (Group 1 wd1) no_flags st1)"
    and 3: "st \<in> set (rmatch (Lit [CHR ''('']) no_flags st2)"
    unfolding seq_elem eps_elem by blast
  from lit_elem [OF 1] have a: "s = ''.'' @ rest_of st1" "caps_of st1 = []"
    by (simp_all add: rest_of_def caps_of_def)
  from group_wd1_elem [OF 2] obtain w where
    b: "rest_of st1 = w @ rest_of st2" "caps_of st2 = (1, w) # caps_of st1" by blast
  from lit_elem [OF 3] have c: "rest_of st2 = [CHR ''(''] @ rest_of st" "caps_of st = caps_of st2"
    by simp_all
  have "s = (''.'' @ w @ [CHR ''('']) @ rest_of st" using a b c by simp
  moreover have "same_code (expand [T ''.'', G 1, T [CHR ''('']] (caps_of st)) (''.'' @ w @ [CHR ''(''])"
    using a b c by (simp add: same_code_def)
  ultimately show "\<exists>m. s = m @ rest_of st \<and>
      same_code (expand [T ''.'', G 1, T [CHR ''('']] (caps_of st)) m"
    by blast
qed

lemma op_fix_same_code: "same_code (op_fix a o' b s) s"
  unfolding op_fix_def seqs3
proof (rule re_sub_same_code)
  fix p s st
  assume "st \<in> set (rmatch (Seq (Group 1 (Cs (NoneOf a))) (Seq (Lit [o'])
                          (Seq (Group 2 (Cs (NoneOf b))) Eps))) no_flags (p, s, []))"
  then obtain st1 st2 where 1: "st1 \<in> set (rmatch (Group 1 (Cs (NoneOf a))) no_flags (p, s, []))"
    and 2: "st2 \<in> set (rmatch (Lit [o']) no_flags st1)"
    and 3: "st \<in> set (rmatch (Group 2 (Cs (NoneOf b))) no_flags st2)"
    unfolding seq_elem eps_elem by blast
  from group_cs_elem [OF 1] obtain x where
    a: "s = x # rest_of st1" "caps_of st1 = [(1, [x])]"
    by (auto simp: rest_of_def caps_of_def)
  from lit_elem [OF 2] have b: "rest_of st1 = [o'] @ rest_of st2" "caps_of st2 = caps_of st1"
    by simp_all
  from group_cs_elem [OF 3] obtain y where
    c: "rest_of st2 = y # rest_of st" "caps_of st = (2, [y]) # caps_of st2" by blast
  have "s = [x, o', y] @ rest_of st" using a b c by simp
  moreover have "same_code (expand [G 1, T ('' '' @ [o'] @ '' ''), G 2] (caps_of st)) [x, o', y]"
    using a b c by (simp add: same_code_def)
  ultimately show "\<exists>m. s = m @ rest_of st \<and>
      same_code (expand [G 1, T ('' '' @ [o'] @ '' ''), G 2] (caps_of st)) m"
    by blast
qed

lemma fold_same_code:
  assumes "\<And>k s. same_code (f k s) s"
  shows "same_code (fold f ks s) s"
proof (induction ks arbitrary: s)
  case Nil
  then show ?case by simp
next
  case (Cons k ks)
  have "same_code (fold f ks (f k s)) (f k s)" by (rule Cons.IH)
  from same_code_trans [OF this assms] show ?case by simp
qed

lemma python_fix_same_code: "same_code (python_fix url s) s"
  unfolding python_fix_def Let_def
  by (intro same_code_trans [OF op_fix_same_code] same_code_trans [OF chain_fix_same_code])
     (auto intro: same_code_trans fold_same_code kw_fix_same_code call_fix_same_code)

lemma js_fix_same_code: "same_code (js_fix s) s"
  unfolding js_fix_def Let_def
  by (intro same_code_trans [OF op_fix_same_code])
     (auto intro: fold_same_code kw_fix_same_code)

subsection \<open>Lines\<close>


lemma nl_linebreak [simp]: "is_linebreak nl"
  by (simp add: is_linebreak_def nl_def)

lemma blank_not_linebreak [simp]: "\<not> is_linebreak CHR '' ''"
  by (simp add: is_linebreak_def)

lemma nl_not_cr [simp]: "nl \<noteq> cr"
  by (simp add: nl_def cr_def)

lemma splitlines_breakfree:
  "l \<in> set (splitlines x) \<Longrightarrow> c \<in> set l \<Longrightarrow> \<not> is_linebreak c"
proof (induction x arbitrary: l rule: splitlines.induct)
  case (1 s)
  show ?case
  proof (cases "dropWhile (\<lambda>c. \<not> is_linebreak c) s")
    case Nil
    have "splitlines s = (if s = [] then [] else [s])"
      by (subst splitlines.simps) (simp only: Nil list.case)
    with "1.prems" have "l = s" by (auto split: if_splits)
    moreover from Nil have "\<forall>c \<in> set s. \<not> is_linebreak c" by (simp add: dropWhile_eq_Nil_conv)
    ultimately show ?thesis using "1.prems"(2) by blast
  next
    case (Cons d r)
    then have ne: "s \<noteq> []" by auto
    have "splitlines s = takeWhile (\<lambda>c. \<not> is_linebreak c) s #
        splitlines (if d = cr \<and> take 1 r = [nl] then tl r else r)"
      by (subst splitlines.simps) (simp only: Cons list.case ne if_False)
    with "1.prems"(1) consider
      (first) "l = takeWhile (\<lambda>c. \<not> is_linebreak c) s"
      | (later) "l \<in> set (splitlines (if d = cr \<and> take 1 r = [nl] then tl r else r))"
      by auto
    then show ?thesis
    proof cases
      case first
      with "1.prems"(2) show ?thesis by (auto dest: set_takeWhileD)
    next
      case later
      from "1.IH" [OF ne Cons later "1.prems"(2)] show ?thesis .
    qed
  qed
qed

lemma splitlines_line:
  assumes "\<forall>c \<in> set l. \<not> is_linebreak c"
  shows "splitlines (l @ nl # r) = l # splitlines r"
proof -
  have d: "dropWhile (\<lambda>c. \<not> is_linebreak c) (l @ nl # r) = nl # r"
    using assms by (simp add: dropWhile_append2)
  have t: "takeWhile (\<lambda>c. \<not> is_linebreak c) (l @ nl # r) = l"
    using assms by (simp add: takeWhile_append2)
  show ?thesis by (subst splitlines.simps) (simp add: d t)
qed

lemma splitlines_single:
  assumes "\<forall>c \<in> set l. \<not> is_linebreak c"
  shows "splitlines l = (if l = [] then [] else [l])"
proof -
  have d: "dropWhile (\<lambda>c. \<not> is_linebreak c) l = []" using assms by simp
  show ?thesis by (subst splitlines.simps) (simp only: d list.case)
qed

lemma is_blank_iff: "is_blank s \<longleftrightarrow> (\<forall>c \<in> set s. is_space c)"
proof
  assume "is_blank s"
  then have "dropWhile is_space (rev (dropWhile is_space s)) = []"
    by (simp add: is_blank_def strip_def rstrip_def lstrip_def)
  then have a: "\<forall>c \<in> set (dropWhile is_space s). is_space c"
    by (simp add: dropWhile_eq_Nil_conv)
  have "dropWhile is_space s = []"
  proof (rule ccontr)
    assume n: "dropWhile is_space s \<noteq> []"
    then have "\<not> is_space (hd (dropWhile is_space s))" by (rule hd_dropWhile)
    moreover from n have "hd (dropWhile is_space s) \<in> set (dropWhile is_space s)" by simp
    ultimately show False using a by blast
  qed
  then show "\<forall>c \<in> set s. is_space c" by (simp add: dropWhile_eq_Nil_conv)
next
  assume "\<forall>c \<in> set s. is_space c"
  then show "is_blank s"
    by (auto simp: is_blank_def strip_def rstrip_def lstrip_def dest: set_dropWhileD)
qed

lemma is_blank_Nil [simp]: "is_blank []"
  by (simp add: is_blank_iff)

lemma nonblank_lines_join:
  assumes "\<forall>l \<in> set ls. \<forall>c \<in> set l. \<not> is_linebreak c"
  shows "filter (\<lambda>l. \<not> is_blank l) (splitlines (join [nl] ls)) = filter (\<lambda>l. \<not> is_blank l) ls"
  using assms
proof (induction "[nl]" ls rule: join.induct)
  case 1
  show ?case by (simp add: splitlines.simps)
next
  case (2 l)
  then show ?case by (simp add: splitlines_single)
next
  case (3 l m ls)
  then show ?case by (simp add: splitlines_line)
qed

lemma filter_dropWhile_not: "filter (\<lambda>l. \<not> P l) (dropWhile P ls) = filter (\<lambda>l. \<not> P l) ls"
  by (induction ls) auto

lemma filter_pop_blank_lines:
  "filter (\<lambda>l. \<not> is_blank l) (pop_blank_lines ls) = filter (\<lambda>l. \<not> is_blank l) ls"
proof -
  have "filter (\<lambda>l. \<not> is_blank l) (pop_blank_lines ls) =
        rev (filter (\<lambda>l. \<not> is_blank l) (dropWhile is_blank (rev (dropWhile is_blank ls))))"
    by (simp add: pop_blank_lines_def rev_filter)
  also have "\<dots> = rev (filter (\<lambda>l. \<not> is_blank l) (rev (dropWhile is_blank ls)))"
    by (simp only: filter_dropWhile_not)
  also have "\<dots> = filter (\<lambda>l. \<not> is_blank l) ls"
    by (simp add: rev_filter [symmetric] filter_dropWhile_not)
  finally show ?thesis .
qed

lemma set_pop_blank_lines: "l \<in> set (pop_blank_lines ls) \<Longrightarrow> l \<in> set ls"
  unfolding pop_blank_lines_def by (auto dest!: set_dropWhileD)

lemma same_code_blank: "same_code e m \<Longrightarrow> is_blank e \<longleftrightarrow> is_blank m"
proof -
  assume "same_code e m"
  then have "filter (\<lambda>c. \<not> is_space c) e = [] \<longleftrightarrow> filter (\<lambda>c. \<not> is_space c) m = []"
    by (simp add: same_code_def)
  then show ?thesis by (simp add: is_blank_iff filter_empty_conv)
qed

lemma same_code_breakfree:
  "same_code e m \<Longrightarrow> \<forall>c \<in> set m. \<not> is_linebreak c \<Longrightarrow> \<forall>c \<in> set e. \<not> is_linebreak c"
  by (auto simp: same_code_def)

lemma format_line_blank:
  assumes "\<And>s. same_code (fix s) s"
  shows "is_blank (format_line fix m l) \<longleftrightarrow> is_blank l"
proof (cases "is_blank l")
  case True
  then show ?thesis by (simp add: format_line_def)
next
  case False
  then obtain c where c: "c \<in> set l" "\<not> is_space c" by (auto simp: is_blank_iff)
  then have "c \<in> set (lstrip l)"
    unfolding lstrip_def by (metis dropWhile_append3 in_set_conv_decomp)
  with c have "\<not> is_blank (lstrip l)" by (auto simp: is_blank_iff)
  with same_code_blank [OF assms, of "lstrip l"] have "\<not> is_blank (fix (lstrip l))" by simp
  then have "\<not> is_blank (format_line fix m l)"
    using False by (auto simp: format_line_def Let_def is_blank_iff)
  with False show ?thesis by simp
qed

lemma format_line_breakfree:
  assumes "\<And>s. same_code (fix s) s" and "\<forall>c \<in> set l. \<not> is_linebreak c"
  shows "\<forall>c \<in> set (format_line fix m l). \<not> is_linebreak c"
proof -
  have "\<forall>c \<in> set (lstrip l). \<not> is_linebreak c"
    using assms(2) unfolding lstrip_def by (auto dest: set_dropWhileD)
  from same_code_breakfree [OF assms(1) this] show ?thesis
    by (auto simp: format_line_def Let_def)
qed

lemma nonblank_lines_formatted:
  assumes "\<And>s. same_code (fix s) s"
  shows "nonblank_lines (join [nl] (map (format_line fix m) (pop_blank_lines (splitlines x)))) =
         nonblank_lines x"
proof -
  let ?ls = "pop_blank_lines (splitlines x)"
  have bf: "\<forall>l \<in> set (map (format_line fix m) ?ls). \<forall>c \<in> set l. \<not> is_linebreak c"
    using format_line_breakfree [OF assms] splitlines_breakfree set_pop_blank_lines
    by (metis (no_types, lifting) imageE list.set_map)
  have "nonblank_lines (join [nl] (map (format_line fix m) ?ls)) =
        length (filter (\<lambda>l. \<not> is_blank l) (map (format_line fix m) ?ls))"
    unfolding nonblank_lines_def by (simp only: nonblank_lines_join [OF bf])
  also have "\<dots> = length (filter (\<lambda>l. \<not> is_blank l) ?ls)"
    by (simp add: filter_map o_def format_line_blank [OF assms])
  also have "\<dots> = nonblank_lines x"
    by (simp add: filter_pop_blank_lines nonblank_lines_def)
  finally show ?thesis .
qed

subsection \<open>The inserted import line\<close>

lemma re_find_bol:
  "re_find (Seq Bol r) MULTILINE p s i = Some (k, st) \<Longrightarrow>
     \<exists>pre post. s = pre @ post \<and> k = i + length pre \<and>
       (pre = [] \<and> (p = None \<or> p = Some nl) \<or> pre \<noteq> [] \<and> last pre = nl)"
proof (induction s arbitrary: p i)
  case Nil
  then have "at_bol MULTILINE (p, [], [])" by (auto split: list.splits if_splits)
  then have "p = None \<or> p = Some nl" by (auto simp: at_bol_def split: option.splits)
  with Nil show ?case by (auto split: list.splits if_splits)
next
  case (Cons c s)
  note prems = Cons.prems and IH = Cons.IH
  show ?case
  proof (cases "rmatch (Seq Bol r) MULTILINE (p, c # s, [])")
    case Nil
    with prems have "re_find (Seq Bol r) MULTILINE (Some c) s (Suc i) = Some (k, st)"
      by (simp only: re_find.simps list.case)
    from IH [OF this] obtain pre post where
      a: "s = pre @ post" "k = Suc i + length pre"
      "pre = [] \<and> Some c = Some nl \<or> pre \<noteq> [] \<and> last pre = nl" by auto
    have "c # s = (c # pre) @ post" using a by simp
    moreover have "k = i + length (c # pre)" using a by simp
    moreover have "last (c # pre) = nl" using a by auto
    ultimately show ?thesis by blast
  next
    case (Cons st' sts)
    then have "at_bol MULTILINE (p, c # s, [])" by (auto split: if_splits)
    then have "p = None \<or> p = Some nl" by (auto simp: at_bol_def split: option.splits)
    moreover have "re_find (Seq Bol r) MULTILINE p (c # s) i = Some (i, st')"
      by (simp only: re_find.simps Cons list.case)
    with prems have "k = i" by simp
    ultimately show ?thesis by auto
  qed
qed

lemma splitlines_Nil [simp]: "splitlines [] = []"
  by (simp add: splitlines.simps)

lemma splitlines_append:
  "pre = [] \<or> last pre = nl \<Longrightarrow> splitlines (pre @ r) = splitlines pre @ splitlines r"
proof (induction "length pre" arbitrary: pre rule: less_induct)
  case less
  show ?case
  proof (cases "pre = []")
    case True
    then show ?thesis by simp
  next
    case False
    with less.prems have l: "last pre = nl" by simp
    from False l have "nl \<in> set pre" using last_in_set by metis
    then have "\<exists>c \<in> set pre. is_linebreak c" using nl_linebreak by blast
    then have "dropWhile (\<lambda>c. \<not> is_linebreak c) pre \<noteq> []"
      by (simp add: dropWhile_eq_Nil_conv)
    then obtain d b where db: "dropWhile (\<lambda>c. \<not> is_linebreak c) pre = d # b"
      by (cases "dropWhile (\<lambda>c. \<not> is_linebreak c) pre") auto
    define a where "a = takeWhile (\<lambda>c. \<not> is_linebreak c) pre"
    have pre: "pre = a @ d # b" unfolding a_def using db takeWhile_dropWhile_id by metis
    have d: "is_linebreak d" using db hd_dropWhile [of "\<lambda>c. \<not> is_linebreak c" pre] by auto
    have abf: "\<forall>c \<in> set a. \<not> is_linebreak c" unfolding a_def by (auto dest: set_takeWhileD)
    have dw: "dropWhile (\<lambda>c. \<not> is_linebreak c) (pre @ r) = d # (b @ r)"
      unfolding pre using abf d by (simp add: dropWhile_append2)
    have tw: "takeWhile (\<lambda>c. \<not> is_linebreak c) (pre @ r) = a"
      unfolding pre using abf d by (simp add: takeWhile_append2)
    have e1: "splitlines pre = a # splitlines (if d = cr \<and> take 1 b = [nl] then tl b else b)"
      by (subst splitlines.simps) (simp only: db list.case False if_False a_def)
    have ne: "pre @ r \<noteq> []" using False by simp
    have e2: "splitlines (pre @ r) =
        a # splitlines (if d = cr \<and> take 1 (b @ r) = [nl] then tl (b @ r) else b @ r)"
      by (subst splitlines.simps) (simp only: dw tw list.case ne if_False)
    show ?thesis
    proof (cases "b = []")
      case True
      with pre l have "d = nl" by simp
      with True e1 e2 show ?thesis by simp
    next
      case bne: False
      define b' where "b' = (if d = cr \<and> take 1 b = [nl] then tl b else b)"
      have r: "(if d = cr \<and> take 1 (b @ r) = [nl] then tl (b @ r) else b @ r) = b' @ r"
        using bne by (cases b) (auto simp: b'_def)
      have lb: "last b = nl" using pre l bne by simp
      have "b' = [] \<or> last b' = nl"
        using lb bne by (cases b) (auto simp: b'_def split: if_splits)
      moreover have "length b' < length pre" unfolding pre b'_def by auto
      ultimately have "splitlines (b' @ r) = splitlines b' @ splitlines r"
        using less.hyps by blast
      with e1 e2 r show ?thesis by (simp add: b'_def)
    qed
  qed
qed

lemma nonblank_lines_insert:
  assumes "pre = [] \<or> last pre = nl"
    and "\<forall>c \<in> set l. \<not> is_linebreak c" and "\<not> is_blank l"
  shows "nonblank_lines (pre @ l @ [nl] @ post) = Suc (nonblank_lines (pre @ post))"
  using assms by (simp add: nonblank_lines_def splitlines_append splitlines_line)

lemma crawl4ai_import_line:
  "(\<forall>c \<in> set crawl4ai_import. \<not> is_linebreak c) \<and> \<not> is_blank crawl4ai_import"
proof -
  have "list_all (\<lambda>c. \<not> is_linebreak c) crawl4ai_import" by code_simp
  moreover have "\<not> is_blank crawl4ai_import" by code_simp
  ultimately show ?thesis by (simp add: list_all_iff)
qed

lemma nonblank_lines_add_import:
  "nonblank_lines (add_crawl4ai_import f) =
     (if str_contains f ''AsyncWebCrawler'' \<and>
         \<not> str_contains f ''from crawl4ai import AsyncWebCrawler'' \<and>
         re_find import_line_re MULTILINE None f 0 \<noteq> None
      then Suc (nonblank_lines f) else nonblank_lines f)"
proof (cases "str_contains f ''AsyncWebCrawler'' \<and>
    \<not> str_contains f ''from crawl4ai import AsyncWebCrawler'' \<and>
    re_find import_line_re MULTILINE None f 0 \<noteq> None")
  case False
  then have "add_crawl4ai_import f = f"
    by (auto simp: add_crawl4ai_import_def split: option.splits)
  with False show ?thesis by simp
next
  case True
  then obtain k st where k: "re_find import_line_re MULTILINE None f 0 = Some (k, st)"
    by auto
  with True have e: "add_crawl4ai_import f = take k f @ crawl4ai_import @ [nl] @ drop k f"
    by (simp add: add_crawl4ai_import_def)
  from re_find_bol [OF k [unfolded import_line_re_def]] obtain pre post where
    p: "f = pre @ post" "k = length pre" "pre = [] \<or> last pre = nl" by auto
  have "add_crawl4ai_import f = pre @ crawl4ai_import @ [nl] @ post"
    unfolding e using p by simp
  with nonblank_lines_insert [OF p(3), of crawl4ai_import post] crawl4ai_import_line p(1)
  have "nonblank_lines (add_crawl4ai_import f) = Suc (nonblank_lines f)" by simp
  with True show ?thesis by simp
qed

lemma same_code_id: "same_code (id s) s"
  by simp

text \<open>
  C1, as amended. Off the JSON re-serialisation (the language is \<^verbatim>\<open>json\<close>, the text has 5
  characters or more and the library parses it), the text that \<^verbatim>\<open>process_code_block\<close>
  returns has as many non-blank lines as the text it was given, for every language and
  URL, with one exception: where the Python branch inserts the import line under a
  crawl4ai URL, it has exactly one line more. Under a crawl4ai URL too the number is kept
  when no import line is inserted.
\<close>

theorem nonblank_lines_preserved:
  assumes "L = ''json'' \<longrightarrow> length x < 5 \<or> jp x = None"
  shows "\<exists>t. process_code_block jp x L u = Inr (t, L) \<and>
           nonblank_lines t =
             (if L = ''python'' \<and> import_synthesised x u then Suc (nonblank_lines x)
              else nonblank_lines x)"
proof -
  let ?ls = "pop_blank_lines (splitlines x)"
  let ?ne = "filter (\<lambda>line. \<not> is_blank line) ?ls"
  let ?out = "\<lambda>fix m. join [nl] (map (format_line fix m) ?ls)"
  show ?thesis
  proof (cases "length x < 5 \<or> ?ls = [] \<or> ?ne = []")
    case True
    then have r: "process_code_block jp x L u = Inr (x, L)"
      by (auto simp: process_code_block_def Let_def)
    have "\<not> import_synthesised x u"
    proof (cases "length x < 5")
      case True
      then show ?thesis by (simp add: import_synthesised_def)
    next
      case False
      with True have "?ne = []" by auto
      then have "python_formatted x u = []" by (simp add: python_formatted_def Let_def)
      then show ?thesis by (simp add: import_synthesised_def)
    qed
    with r show ?thesis by simp
  next
    case False
    then obtain m where m: "py_min (map indent_of ?ne) = Inr m"
      using py_min_indents by blast
    have hpy: "nonblank_lines (?out (python_fix u) m) = nonblank_lines x"
      by (rule nonblank_lines_formatted) (rule python_fix_same_code)
    have hjs: "nonblank_lines (?out js_fix m) = nonblank_lines x"
      by (rule nonblank_lines_formatted) (rule js_fix_same_code)
    have hother: "nonblank_lines (?out id m) = nonblank_lines x"
      by (rule nonblank_lines_formatted) (rule same_code_id)
    consider (python) "L = ''python''"
      | (js) "L \<noteq> ''python''" "L \<in> set [''javascript'', ''typescript'', ''jsx'', ''tsx'']"
      | (json) "L = ''json''"
      | (other) "L \<noteq> ''python''" "L \<notin> set [''javascript'', ''typescript'', ''jsx'', ''tsx'']"
          "L \<noteq> ''json''"
      by blast
    then show ?thesis
    proof cases
      case python
      have r: "process_code_block jp x L u =
          Inr (if crawl4ai_url u then add_crawl4ai_import (?out (python_fix u) m)
               else ?out (python_fix u) m, L)"
        using False m python by (simp add: process_code_block_def Let_def)
      have f: "python_formatted x u = ?out (python_fix u) m"
        using m by (simp add: python_formatted_def Let_def)
      have l: "5 \<le> length x" using False by simp
      show ?thesis
      proof (cases "crawl4ai_url u")
        case True
        have "nonblank_lines (add_crawl4ai_import (?out (python_fix u) m)) =
            (if import_synthesised x u then Suc (nonblank_lines x) else nonblank_lines x)"
          unfolding nonblank_lines_add_import hpy import_synthesised_def f
          using True l by simp
        with r python True show ?thesis by simp
      next
        case nc: False
        then have "\<not> import_synthesised x u" by (simp add: import_synthesised_def)
        with r hpy nc show ?thesis by simp
      qed
    next
      case js
      have "process_code_block jp x L u = Inr (?out js_fix m, L)"
        using False m js by (simp add: process_code_block_def Let_def)
      with hjs js(1) show ?thesis by simp
    next
      case json
      with assms False have "jp x = None" by simp
      then have "process_code_block jp x L u = Inr (?out id m, L)"
        using False m json by (simp add: process_code_block_def Let_def)
      with hother json show ?thesis by simp
    next
      case other
      have "process_code_block jp x L u = Inr (?out id m, L)"
        using False m other by (simp add: process_code_block_def Let_def)
      with hother other(1) show ?thesis by simp
    qed
  qed
qed

theorem nonblank_lines_preserved_witness:
  "py_json_pretty (''  {oops,'' @ [nl, nl] @ ''    }'' @ [nl]) = None \<and>
   process_code_block py_json_pretty (''  {oops,'' @ [nl, nl] @ ''    }'' @ [nl]) ''json'' None =
     Inr (''{oops,'' @ [nl, nl] @ ''  }'', ''json'') \<and>
   nonblank_lines (''{oops,'' @ [nl, nl] @ ''  }'') = 2 \<and>
   nonblank_lines (''  {oops,'' @ [nl, nl] @ ''    }'' @ [nl]) = 2 \<and>
   import_synthesised (''import os'' @ [nl] @ ''AsyncWebCrawler()'')
     (Some ''https://docs.crawl4ai.com/'') \<and>
   process_code_block py_json_pretty (''import os'' @ [nl] @ ''AsyncWebCrawler()'') ''python''
       (Some ''https://docs.crawl4ai.com/'') =
     Inr (''from crawl4ai import AsyncWebCrawler, CrawlerRunConfig'' @ [nl] @ ''import os'' @ [nl] @
          ''AsyncWebCrawler()'', ''python'') \<and>
   nonblank_lines (''from crawl4ai import AsyncWebCrawler, CrawlerRunConfig'' @ [nl] @
       ''import os'' @ [nl] @ ''AsyncWebCrawler()'') =
     Suc (nonblank_lines (''import os'' @ [nl] @ ''AsyncWebCrawler()'')) \<and>
   \<not> import_synthesised ''print(AsyncWebCrawler)'' (Some ''https://docs.crawl4ai.com/'') \<and>
   process_code_block py_json_pretty ''print(AsyncWebCrawler)'' ''python''
       (Some ''https://docs.crawl4ai.com/'') =
     Inr (''prin t(AsyncWebCrawler)'', ''python'') \<and>
   nonblank_lines ''prin t(AsyncWebCrawler)'' = nonblank_lines ''print(AsyncWebCrawler)''"
proof -
  have j: "py_json_pretty (''  {oops,'' @ [nl, nl] @ ''    }'' @ [nl]) = None" by code_simp
  have p: "process_code_block py_json_pretty (''  {oops,'' @ [nl, nl] @ ''    }'' @ [nl]) ''json'' None =
     Inr (''{oops,'' @ [nl, nl] @ ''  }'', ''json'')" by code_simp
  have n: "nonblank_lines (''  {oops,'' @ [nl, nl] @ ''    }'' @ [nl]) = 2" by code_simp
  have s: "import_synthesised (''import os'' @ [nl] @ ''AsyncWebCrawler()'')
      (Some ''https://docs.crawl4ai.com/'')" by code_simp
  have q: "process_code_block py_json_pretty (''import os'' @ [nl] @ ''AsyncWebCrawler()'') ''python''
       (Some ''https://docs.crawl4ai.com/'') =
     Inr (''from crawl4ai import AsyncWebCrawler, CrawlerRunConfig'' @ [nl] @ ''import os'' @ [nl] @
          ''AsyncWebCrawler()'', ''python'')" by code_simp
  have s': "\<not> import_synthesised ''print(AsyncWebCrawler)'' (Some ''https://docs.crawl4ai.com/'')"
    by code_simp
  have q': "process_code_block py_json_pretty ''print(AsyncWebCrawler)'' ''python''
       (Some ''https://docs.crawl4ai.com/'') = Inr (''prin t(AsyncWebCrawler)'', ''python'')"
    by code_simp
  from nonblank_lines_preserved [of "''json''" "''  {oops,'' @ [nl, nl] @ ''    }'' @ [nl]"
      py_json_pretty None] j p n
  have a: "nonblank_lines (''{oops,'' @ [nl, nl] @ ''  }'') = 2" by simp
  from nonblank_lines_preserved [of "''python''" "''import os'' @ [nl] @ ''AsyncWebCrawler()''"
      py_json_pretty "Some ''https://docs.crawl4ai.com/''"] s q
  have b: "nonblank_lines (''from crawl4ai import AsyncWebCrawler, CrawlerRunConfig'' @ [nl] @
       ''import os'' @ [nl] @ ''AsyncWebCrawler()'') =
     Suc (nonblank_lines (''import os'' @ [nl] @ ''AsyncWebCrawler()''))" by simp
  from nonblank_lines_preserved [of "''python''" "''print(AsyncWebCrawler)''"
      py_json_pretty "Some ''https://docs.crawl4ai.com/''"] s' q'
  have c: "nonblank_lines ''prin t(AsyncWebCrawler)'' = nonblank_lines ''print(AsyncWebCrawler)''"
    by simp
  from j p n s q s' q' a b c show ?thesis by (simp only: simp_thms)
qed

text \<open>
  C1 as stated fails on both paths it names: the JSON re-serialisation turns one line into
  four, and the import synthesis turns two lines into three.
\<close>

theorem nonblank_lines_preserved_counterexample:
  "process_code_block py_json_pretty
       (''{'' @ [dq] @ ''a'' @ [dq] @ '':1,'' @ [dq] @ ''b'' @ [dq] @ '':2}'') ''json'' None =
     Inr (''{'' @ [nl] @ ''  '' @ [dq] @ ''a'' @ [dq] @ '': 1,'' @ [nl] @
          ''  '' @ [dq] @ ''b'' @ [dq] @ '': 2'' @ [nl] @ ''}'', ''json'') \<and>
   nonblank_lines (''{'' @ [dq] @ ''a'' @ [dq] @ '':1,'' @ [dq] @ ''b'' @ [dq] @ '':2}'') = 1 \<and>
   nonblank_lines (''{'' @ [nl] @ ''  '' @ [dq] @ ''a'' @ [dq] @ '': 1,'' @ [nl] @
          ''  '' @ [dq] @ ''b'' @ [dq] @ '': 2'' @ [nl] @ ''}'') = 4 \<and>
   process_code_block py_json_pretty (''import os'' @ [nl] @ ''AsyncWebCrawler()'') ''python''
       (Some ''https://docs.crawl4ai.com/'') =
     Inr (''from crawl4ai import AsyncWebCrawler, CrawlerRunConfig'' @ [nl] @ ''import os'' @ [nl] @
          ''AsyncWebCrawler()'', ''python'') \<and>
   nonblank_lines (''import os'' @ [nl] @ ''AsyncWebCrawler()'') = 2 \<and>
   nonblank_lines (''from crawl4ai import AsyncWebCrawler, CrawlerRunConfig'' @ [nl] @
          ''import os'' @ [nl] @ ''AsyncWebCrawler()'') = 3"
  by code_simp

subsection \<open>JSON: numbers\<close>

lemma of_char_digit: "d < 10 \<Longrightarrow> (of_char (char_of (48 + d :: nat)) :: nat) = 48 + d"
  by simp









subsection \<open>JSON: strings\<close>






subsection \<open>JSON: the decoder reads what the encoder writes\<close>









lemma skip_ws_punct [simp]:
  "skip_ws (CHR '','' # s) = CHR '','' # s" "skip_ws (CHR '']'' # s) = CHR '']'' # s"
  "skip_ws (CHR ''}'' # s) = CHR ''}'' # s" "skip_ws (CHR '':'' # s) = CHR '':'' # s"
  "skip_ws (CHR '' '' # s) = skip_ws s" "skip_ws (dq # s) = dq # s"
  by (simp_all add: skip_ws_def is_json_ws_def nl_def cr_def dq_def)

lemma startswith_Cons [simp]: "startswith (c # s) [d] \<longleftrightarrow> c = d"
  by (simp add: startswith_def)








subsection \<open>JSON: \<^verbatim>\<open>loads\<close> after \<^verbatim>\<open>dumps\<close>\<close>




subsection \<open>JSON: what \<^verbatim>\<open>loads\<close> returns\<close>













subsection \<open>A text that parses is not blank\<close>













end
